theory Spec2Isabelle
  imports Main "HOL-Library.AList"
begin

section \<open>The environment registry of \<^verbatim>\<open>jumanji/registration.py\<close>\<close>

text \<open>
  A shallow embedding of the module: the identifier grammar \<^verbatim>\<open>ENV_NAME_RE\<close>, the parser
  \<^verbatim>\<open>parse_env_id\<close>, the formatter \<^verbatim>\<open>get_env_id\<close>, the dataclass \<^verbatim>\<open>EnvSpec\<close>, the
  module-level dictionary \<^verbatim>\<open>_REGISTRY\<close> and the operations \<^verbatim>\<open>register\<close>, \<^verbatim>\<open>load\<close>,
  \<^verbatim>\<open>make\<close> and \<^verbatim>\<open>registered_environments\<close>.

  Identifiers are Isabelle strings: a character is one of the code points 0 to 255, the
  ASCII characters and those of Latin-1 above them. The classes \<^verbatim>\<open>\w\<close> and \<^verbatim>\<open>\d\<close> of the
  regular expression are the ones of Python for a \<^verbatim>\<open>str\<close> pattern (no \<^verbatim>\<open>re.ASCII\<close> flag) on
  these code points. \<^verbatim>\<open>\d\<close> is a decimal digit, of which there are the ten ASCII ones.
  \<^verbatim>\<open>\w\<close> is an alphanumeric character or the underscore: the ASCII letters and digits,
  and above 127 the letters \<^verbatim>\<open>U+00AA\<close>, \<^verbatim>\<open>U+00B5\<close>, \<^verbatim>\<open>U+00BA\<close>, \<^verbatim>\<open>U+00C0\<close> to \<^verbatim>\<open>U+00D6\<close>,
  \<^verbatim>\<open>U+00D8\<close> to \<^verbatim>\<open>U+00F6\<close> and \<^verbatim>\<open>U+00F8\<close> to \<^verbatim>\<open>U+00FF\<close>, and the numeric characters
  \<^verbatim>\<open>U+00B2\<close>, \<^verbatim>\<open>U+00B3\<close>, \<^verbatim>\<open>U+00B9\<close> (superscript digits) and \<^verbatim>\<open>U+00BC\<close> to \<^verbatim>\<open>U+00BE\<close>
  (fractions), 71 characters in all. Code points above 255 are not in the type.
\<close>

subsection \<open>Characters and decimal numerals\<close>

definition is_digit :: "char \<Rightarrow> bool" where
  \<comment> \<open>\<^verbatim>\<open>\d\<close>: a decimal digit\<close>
  "is_digit c = (let n = (of_char c :: nat) in 48 \<le> n \<and> n \<le> 57)"

definition is_word :: "char \<Rightarrow> bool" where
  \<comment> \<open>\<^verbatim>\<open>\w\<close>: an alphanumeric character or the underscore\<close>
  "is_word c =
     (let n = (of_char c :: nat)
      in (65 \<le> n \<and> n \<le> 90) \<or> (97 \<le> n \<and> n \<le> 122) \<or> is_digit c \<or> c = CHR ''_'' \<or>
         n = 170 \<or> n = 178 \<or> n = 179 \<or> n = 181 \<or> n = 185 \<or> n = 186 \<or>
         (188 \<le> n \<and> n \<le> 190) \<or> (192 \<le> n \<and> n \<le> 214) \<or> (216 \<le> n \<and> n \<le> 246) \<or>
         (248 \<le> n \<and> n \<le> 255))"

definition name_char :: "char \<Rightarrow> bool" where
  \<comment> \<open>the character class \<^verbatim>\<open>[\w:.-]\<close>\<close>
  "name_char c = (is_word c \<or> c = CHR '':'' \<or> c = CHR ''.'' \<or> c = CHR ''-'')"

definition digit_value :: "char \<Rightarrow> int" where
  "digit_value c = int (of_char c) - 48"

definition int_of_digits :: "string \<Rightarrow> int" where
  \<comment> \<open>\<^verbatim>\<open>int(version)\<close> on a string of decimal digits\<close>
  "int_of_digits ds = foldl (\<lambda>a c. 10 * a + digit_value c) 0 ds"

definition digit_char :: "nat \<Rightarrow> char" where
  "digit_char d = char_of (48 + d)"

function str_nat :: "nat \<Rightarrow> string" where
  "str_nat n = (if n < 10 then [digit_char n] else str_nat (n div 10) @ [digit_char (n mod 10)])"
  by pat_completeness auto
termination
  by (relation "measure (\<lambda>n. n)") auto

declare str_nat.simps [simp del]

text \<open>
  Python integers are unbounded, so versions are of type \<open>int\<close>. (The limit that some
  interpreters put on the number of digits of a conversion between \<^verbatim>\<open>str\<close> and \<^verbatim>\<open>int\<close>
  is a setting of the interpreter and is not modelled.)
\<close>

definition str_int :: "int \<Rightarrow> string" where
  \<comment> \<open>\<^verbatim>\<open>str(version)\<close>, as the f-string \<^verbatim>\<open>f"-v{version}"\<close> formats an integer\<close>
  "str_int v = (if v < 0 then CHR ''-'' # str_nat (nat (- v)) else str_nat (nat v))"

subsection \<open>Errors\<close>

text \<open>
  One constructor for each place where the module raises. The first four are all Python
  \<^verbatim>\<open>ValueError\<close>s, raised at lines 41, 104, 113 and 172 of the module; each carries its
  message, built as the f-string of the source builds it. \<open>TypeError\<close> is what the
  constructor of the dataclass raises on a keyword that is not one of its parameters.
  \<open>UnpackError\<close> is the \<^verbatim>\<open>ValueError\<close> of the tuple assignment in \<^verbatim>\<open>load\<close>,
  \<open>AttributeError\<close> that of \<^verbatim>\<open>getattr\<close>; \<open>Raised\<close> is an exception of a collaborator
  (the import system, the constructor of an environment), which the module lets through.
\<close>

datatype error =
    MalformedIdentifier string
  | DuplicateRegistration string
  | VersionGapError string
  | UnregisteredEnvironment string
  | TypeError
  | UnpackError
  | AttributeError string
  | Raised string

definition malformed_message :: "string \<Rightarrow> string" where
  "malformed_message ident =
     ''Malformed environment name: '' @ ident @ ''.'' @
     ''All ID'' @ [CHR 0x27] @ ''s must be of the form (env-name)[-v(version-number)].''"

definition duplicate_message :: "string \<Rightarrow> string" where
  "duplicate_message ident = ''Trying to override the registered environment '' @ ident @ ''.''"

definition version_gap_message :: "int \<Rightarrow> string" where
  "version_gap_message v =
     ''The first version of an unregistered environment must be 0, got '' @ str_int v"

fun join :: "string \<Rightarrow> string list \<Rightarrow> string" where
  \<comment> \<open>\<^verbatim>\<open>sep.join(parts)\<close>\<close>
  "join sep [] = []"
| "join sep [p] = p"
| "join sep (p # q # ps) = p @ sep @ join sep (q # ps)"

definition unregistered_message :: "string \<Rightarrow> string list \<Rightarrow> string" where
  \<comment> \<open>\<open>names\<close> are the keys of the registry, in the order of the dictionary\<close>
  "unregistered_message env_id names =
     (let registered_envs = join [CHR 0x0A] (map (\<lambda>name. ''- '' @ name) names)
      in ''Unregistered environment '' @ env_id @ ''. '' @
         ''Please select from the registered environments: '' @ [CHR 0x0A] @
         registered_envs @ ''.'')"

subsection \<open>The identifier grammar\<close>

text \<open>
  \<^verbatim>\<open>ENV_NAME_RE = re.compile(r"^(?:(?P<name>[\w:.-]+?))(?:-v(?P<version>\d+))?$")\<close>,
  used with \<^verbatim>\<open>fullmatch\<close>.

  \<open>version_group\<close> is the optional group \<^verbatim>\<open>(?:-v(?P<version>\d+))\<close> followed by the end of
  the string: the rest of the input is \<^verbatim>\<open>-v\<close> and then one or more digits, nothing else.
  (The greedy \<^verbatim>\<open>\d+\<close> takes every digit; giving some back never helps, since the end of
  the string must follow.)

  \<open>match_name\<close> is the backtracking of the lazy \<^verbatim>\<open>[\w:.-]+?\<close>: with the name matched so
  far, the matcher first tries the rest of the pattern (the group and the end, then the
  end alone, the group being optional), and only when that fails takes one more
  character into the name.
\<close>

fun version_group :: "string \<Rightarrow> string option" where
  "version_group (c # d # ds) =
     (if c = CHR ''-'' \<and> d = CHR ''v'' \<and> ds \<noteq> [] \<and> list_all is_digit ds then Some ds else None)"
| "version_group _ = None"

fun match_name :: "string \<Rightarrow> string \<Rightarrow> (string \<times> string option) option" where
  "match_name nm [] = Some (nm, None)"
| "match_name nm (c # cs) =
     (case version_group (c # cs) of
        Some ds \<Rightarrow> Some (nm, Some ds)
      | None \<Rightarrow> if name_char c then match_name (nm @ [c]) cs else None)"

fun ENV_NAME_RE_fullmatch :: "string \<Rightarrow> (string \<times> string option) option" where
  "ENV_NAME_RE_fullmatch [] = None"
| "ENV_NAME_RE_fullmatch (c # cs) = (if name_char c then match_name [c] cs else None)"

definition parse_env_id :: "string \<Rightarrow> error + (string \<times> int)" where
  "parse_env_id ident =
     (case ENV_NAME_RE_fullmatch ident of
        None \<Rightarrow> Inl (MalformedIdentifier (malformed_message ident))
      | Some (name, version) \<Rightarrow>
          Inr (name, case version of None \<Rightarrow> 0 | Some ds \<Rightarrow> int_of_digits ds))"

definition get_env_id :: "string \<Rightarrow> int option \<Rightarrow> string" where
  \<comment> \<open>\<^verbatim>\<open>version = version or 0\<close>: \<^verbatim>\<open>None\<close> and \<^verbatim>\<open>0\<close> both give \<^verbatim>\<open>0\<close>\<close>
  "get_env_id name version =
     (let version = (case version of None \<Rightarrow> 0 | Some v \<Rightarrow> v)
      in name @ ''-v'' @ str_int version)"

text \<open>
  The strings that end in a version suffix: some suffix of the string is \<^verbatim>\<open>-v\<close> and then
  one or more digits, nothing else. Used to state what the parser does; not part of the
  module.
\<close>

fun has_version_suffix :: "string \<Rightarrow> bool" where
  "has_version_suffix [] = False"
| "has_version_suffix (c # cs) = (version_group (c # cs) \<noteq> None \<or> has_version_suffix cs)"

subsection \<open>Dictionaries and the objects they are\<close>

text \<open>
  A Python \<^verbatim>\<open>dict\<close> is a list of pairs with distinct keys, in insertion order:
  \<open>map_of\<close> reads it, \<open>AList.update\<close> is the assignment \<^verbatim>\<open>d[k] = v\<close> (it replaces the
  value of a key that is there, in place, and appends a new key at the end).

  The dictionaries of construction arguments are mutable objects that the records share
  with whoever holds a reference to them, so they live in a store: a list of
  dictionaries, an address being an index into it. A new object gets the next index.
  A reference in Python always leads to an object: the addresses that the records hold
  are below the length of the store in every state that the module builds (\<open>refs_ok\<close>
  below), and only there does \<open>h ! a\<close> read an object.
\<close>

type_synonym 'v dict = "(string \<times> 'v) list"
type_synonym addr = nat
type_synonym 'v store = "'v dict list"

definition alloc :: "'v store \<Rightarrow> 'v dict \<Rightarrow> addr \<times> 'v store" where
  "alloc h d = (length h, h @ [d])"

definition dict_copy :: "'v store \<Rightarrow> addr \<Rightarrow> addr \<times> 'v store" where
  \<comment> \<open>\<^verbatim>\<open>d.copy()\<close>: a new object with the same items\<close>
  "dict_copy h a = alloc h (h ! a)"

definition update_items :: "'v dict \<Rightarrow> 'v dict \<Rightarrow> 'v dict" where
  "update_items d other = fold (\<lambda>(k, v). AList.update k v) other d"

definition dict_update :: "'v store \<Rightarrow> addr \<Rightarrow> 'v dict \<Rightarrow> 'v store" where
  \<comment> \<open>\<^verbatim>\<open>d.update(other)\<close>: \<^verbatim>\<open>d[k] = v\<close> for every item of \<open>other\<close>, in order, on the object itself\<close>
  "dict_update h a other = h[a := update_items (h ! a) other]"

subsection \<open>The record of a registration\<close>

text \<open>
  The dataclass \<^verbatim>\<open>EnvSpec\<close>. Its constructor takes \<^verbatim>\<open>id\<close>, \<^verbatim>\<open>entry_point\<close> and, optionally,
  \<^verbatim>\<open>kwargs\<close> (by default a new empty dictionary); the fields \<^verbatim>\<open>name\<close> and \<^verbatim>\<open>version\<close> are
  not parameters (\<^verbatim>\<open>init=False\<close>) and are set by \<^verbatim>\<open>__post_init__\<close>. The field \<^verbatim>\<open>id\<close> is
  \<open>id_str\<close> here, and \<^verbatim>\<open>kwargs\<close> holds the address of the dictionary.

  \<^verbatim>\<open>register\<close> forwards all its keyword arguments to this constructor (\<^verbatim>\<open>**kwargs\<close>). They
  are given here in two parts: \<open>kwargs_arg\<close> is the reference to the dictionary passed as
  \<^verbatim>\<open>kwargs=...\<close>, if that keyword is given, and \<open>extra\<close> are the names of all the other
  keywords of the call, such as \<^verbatim>\<open>size\<close> in \<^verbatim>\<open>register(id, entry_point, size=4)\<close>. The
  constructor has no parameter for any of these, so binding the arguments fails with a
  \<^verbatim>\<open>TypeError\<close> before anything else happens, whatever their values are.
\<close>

record EnvSpec =
  id_str :: string
  entry_point :: string
  kwargs :: addr
  name :: string
  version :: int

definition EnvSpec_init ::
  "'v store \<Rightarrow> string \<Rightarrow> string \<Rightarrow> addr option \<Rightarrow> string list \<Rightarrow> (error + EnvSpec) \<times> 'v store" where
  "EnvSpec_init h ident ep kwargs_arg extra =
     (if extra \<noteq> [] then (Inl TypeError, h)
      else
        (let (ref, h') = (case kwargs_arg of Some a \<Rightarrow> (a, h) | None \<Rightarrow> alloc h [])
         in (case parse_env_id ident of
               Inl e \<Rightarrow> (Inl e, h')
             | Inr (n, v) \<Rightarrow>
                 (Inr \<lparr>id_str = ident, entry_point = ep, kwargs = ref, name = n, version = v\<rparr>,
                  h'))))"

subsection \<open>The registry\<close>

text \<open>
  The state of the module: the dictionary \<^verbatim>\<open>_REGISTRY\<close>, from canonical identifiers to
  records, and the store of the dictionaries of construction arguments.
\<close>

record 'v state =
  REGISTRY :: "(string \<times> EnvSpec) list"
  store :: "'v store"

definition empty_state :: "'v state" where
  "empty_state = \<lparr>REGISTRY = [], store = []\<rparr>"

fun max_default :: "int list \<Rightarrow> int option" where
  \<comment> \<open>\<^verbatim>\<open>max(..., default=None)\<close>\<close>
  "max_default [] = None"
| "max_default (x # xs) = Some (fold max xs x)"

definition check_registration_is_allowed :: "(string \<times> EnvSpec) list \<Rightarrow> EnvSpec \<Rightarrow> error + unit" where
  "check_registration_is_allowed reg spec =
     (if id_str spec \<in> set (map fst reg) then Inl (DuplicateRegistration (duplicate_message (id_str spec)))
      else
        let latest_version =
              max_default (map version (filter (\<lambda>s. name s = name spec) (map snd reg)))
        in if latest_version = None \<and> version spec \<noteq> 0
           then Inl (VersionGapError (version_gap_message (version spec)))
           else Inr ())"

definition register ::
  "'v state \<Rightarrow> string \<Rightarrow> string \<Rightarrow> addr option \<Rightarrow> string list \<Rightarrow> (error + unit) \<times> 'v state" where
  "register st ident ep kwargs_arg extra =
     (case parse_env_id ident of
        Inl e \<Rightarrow> (Inl e, st)
      | Inr (env_name, ver) \<Rightarrow>
          (let env_id = get_env_id env_name (Some ver)
           in (case EnvSpec_init (store st) env_id ep kwargs_arg extra of
                 (Inl e, h) \<Rightarrow> (Inl e, st\<lparr>store := h\<rparr>)
               | (Inr spec, h) \<Rightarrow>
                   (case check_registration_is_allowed (REGISTRY st) spec of
                      Inl e \<Rightarrow> (Inl e, st\<lparr>store := h\<rparr>)
                    | Inr u \<Rightarrow>
                        (Inr (),
                         \<lparr>REGISTRY = AList.update env_id spec (REGISTRY st), store = h\<rparr>)))))"

subsection \<open>Resolving and constructing\<close>

text \<open>
  \<^verbatim>\<open>load\<close> splits the entry point at the colons, imports the module and reads the
  attribute. The import system is a collaborator: \<open>imp\<close> gives, for the name of a
  module, its namespace (from attribute names to constructors) or the exception of the
  import. A constructor is a function of the positional and the keyword arguments that
  returns an environment or raises.
\<close>

type_synonym ('v, 'e) constructor = "'v list \<Rightarrow> 'v dict \<Rightarrow> error + 'e"
type_synonym ('v, 'e) importer = "string \<Rightarrow> error + (string \<rightharpoonup> ('v, 'e) constructor)"

fun split_at :: "char \<Rightarrow> string \<Rightarrow> string \<Rightarrow> string list" where
  \<comment> \<open>\<^verbatim>\<open>s.split(sep)\<close> for a separator of one character; \<open>cur\<close> is the part being read\<close>
  "split_at sep cur [] = [cur]"
| "split_at sep cur (c # cs) =
     (if c = sep then cur # split_at sep [] cs else split_at sep (cur @ [c]) cs)"

definition load :: "('v, 'e) importer \<Rightarrow> string \<Rightarrow> error + ('v, 'e) constructor" where
  "load imp nm =
     (case split_at CHR '':'' [] nm of
        [mod_name, attr_name] \<Rightarrow>
          (case imp mod_name of
             Inl e \<Rightarrow> Inl e
           | Inr module \<Rightarrow>
               (case module attr_name of
                  None \<Rightarrow> Inl (AttributeError attr_name)
                | Some fn \<Rightarrow> Inr fn))
      | _ \<Rightarrow> Inl UnpackError)"

definition make ::
  "('v, 'e) importer \<Rightarrow> 'v state \<Rightarrow> string \<Rightarrow> 'v list \<Rightarrow> 'v dict \<Rightarrow> (error + 'e) \<times> 'v state" where
  "make imp st ident args kw =
     (case parse_env_id ident of
        Inl e \<Rightarrow> (Inl e, st)
      | Inr (env_name, ver) \<Rightarrow>
          (let env_id = get_env_id env_name (Some ver)
           in (case map_of (REGISTRY st) env_id of
                 None \<Rightarrow>
                   (Inl (UnregisteredEnvironment
                           (unregistered_message env_id (map fst (REGISTRY st)))), st)
               | Some env_spec \<Rightarrow>
                   (let (env_fn_kwargs, h) = dict_copy (store st) (kwargs env_spec);
                        h' = dict_update h env_fn_kwargs kw;
                        st' = st\<lparr>store := h'\<rparr>
                    in (case load imp (entry_point env_spec) of
                          Inl e \<Rightarrow> (Inl e, st')
                        | Inr env_fn \<Rightarrow> (env_fn args (h' ! env_fn_kwargs), st'))))))"

definition registered_environments :: "'v state \<Rightarrow> string list \<times> 'v state" where
  "registered_environments st = (map fst (REGISTRY st), st)"

subsection \<open>Well-formed states and runs\<close>

text \<open>
  What every registry that \<^verbatim>\<open>register\<close> builds satisfies (\<open>registry_ok_register\<close> below;
  the empty registry satisfies it, and \<^verbatim>\<open>make\<close> does not touch the registry): the keys
  are distinct, as the keys of a dictionary are, and each key is the identifier of its
  record, parses to the name and the version of the record, and is what the formatter
  gives for them. \<open>refs_ok\<close>: the dictionaries the records refer to exist
  (\<open>refs_ok_register\<close>, \<open>refs_ok_make\<close>).
\<close>

definition registry_ok :: "(string \<times> EnvSpec) list \<Rightarrow> bool" where
  "registry_ok reg =
     (distinct (map fst reg) \<and>
      list_all (\<lambda>(k, s). id_str s = k \<and> parse_env_id k = Inr (name s, version s) \<and>
                  k = get_env_id (name s) (Some (version s))) reg)"

definition refs_ok :: "'v state \<Rightarrow> bool" where
  "refs_ok st = list_all (\<lambda>(k, s). kwargs s < length (store st)) (REGISTRY st)"

text \<open>
  A caller that makes a sequence of calls of \<^verbatim>\<open>register\<close>, going on after a call that
  raises. It returns, in the order of the calls, the canonical identifiers of the calls
  that returned, and the final state.
\<close>

fun register_all ::
  "'v state \<Rightarrow> (string \<times> string \<times> addr option \<times> string list) list \<Rightarrow>
   string list \<times> 'v state" where
  "register_all st [] = ([], st)"
| "register_all st ((ident, ep, kwargs_arg, extra) # calls) =
     (case register st ident ep kwargs_arg extra of
        (Inl e, st') \<Rightarrow> register_all st' calls
      | (Inr u, st') \<Rightarrow>
          (case register_all st' calls of
             (ids, st'') \<Rightarrow>
               (case parse_env_id ident of
                  Inl e \<Rightarrow> (ids, st'')
                | Inr (env_name, ver) \<Rightarrow> (get_env_id env_name (Some ver) # ids, st''))))"

subsection \<open>A scenario\<close>

text \<open>
  The module \<^verbatim>\<open>pkg.envs\<close> has one attribute, \<^verbatim>\<open>CartPole\<close>, a constructor whose
  environment records the arguments it was called with; no other module can be
  imported. In \<open>cartpole_state\<close>, \<^verbatim>\<open>cartpole-v0\<close> has been registered with
  \<^verbatim>\<open>kwargs={"size": 4}\<close>, the dictionary at address 0.
\<close>

definition CartPole :: "(nat, nat list \<times> nat dict) constructor" where
  "CartPole args kw = Inr (args, kw)"

definition pkg_importer :: "(nat, nat list \<times> nat dict) importer" where
  "pkg_importer mod_name =
     (if mod_name = ''pkg.envs'' then Inr [''CartPole'' \<mapsto> CartPole]
      else Inl (Raised ''ModuleNotFoundError''))"

definition cartpole_state :: "nat state" where
  "cartpole_state =
     snd (register \<lparr>REGISTRY = [], store = [[(''size'', 4)]]\<rparr>
            ''cartpole-v0'' ''pkg.envs:CartPole'' (Some 0) [])"

section \<open>Properties\<close>

subsection \<open>Digits, numerals and the grammar\<close>

lemma not_digit_hyphen: "\<not> is_digit CHR ''-''"
  by (simp add: is_digit_def)

lemma is_digit_digit_char: "d < 10 \<Longrightarrow> is_digit (digit_char d)"
  by (simp add: is_digit_def digit_char_def)

lemma digit_value_digit_char: "d < 10 \<Longrightarrow> digit_value (digit_char d) = int d"
  by (simp add: digit_value_def digit_char_def)

lemma digit_value_range: "is_digit c \<Longrightarrow> 0 \<le> digit_value c \<and> digit_value c \<le> 9"
  by (simp add: is_digit_def digit_value_def Let_def)

lemma int_of_digits_snoc: "int_of_digits (ds @ [c]) = 10 * int_of_digits ds + digit_value c"
  by (simp add: int_of_digits_def)

lemma int_of_digits_nonneg: "list_all is_digit ds \<Longrightarrow> 0 \<le> int_of_digits ds"
proof (induction ds rule: rev_induct)
  case Nil
  show ?case by (simp add: int_of_digits_def)
next
  case (snoc c ds)
  then have "0 \<le> int_of_digits ds" and "0 \<le> digit_value c"
    using digit_value_range by auto
  then show ?case by (simp add: int_of_digits_snoc)
qed

lemma str_nat_digits: "list_all is_digit (str_nat n)"
proof (induction n rule: str_nat.induct)
  case (1 n)
  show ?case
  proof (cases "n < 10")
    case True
    then show ?thesis by (simp add: str_nat.simps [of n] is_digit_digit_char)
  next
    case False
    with "1" show ?thesis by (simp add: str_nat.simps [of n] is_digit_digit_char)
  qed
qed

lemma str_nat_nonempty: "str_nat n \<noteq> []"
  by (simp add: str_nat.simps [of n])

lemma int_of_digits_str_nat: "int_of_digits (str_nat n) = int n"
proof (induction n rule: str_nat.induct)
  case (1 n)
  show ?case
  proof (cases "n < 10")
    case True
    then show ?thesis
      by (simp add: str_nat.simps [of n] int_of_digits_def digit_value_digit_char)
  next
    case False
    with "1" have "int_of_digits (str_nat (n div 10)) = int (n div 10)" by simp
    with False show ?thesis
      by (simp add: str_nat.simps [of n] int_of_digits_snoc digit_value_digit_char zdiv_int zmod_int)
  qed
qed

lemma version_group_Some_iff:
  "version_group s = Some ds \<longleftrightarrow> s = ''-v'' @ ds \<and> ds \<noteq> [] \<and> list_all is_digit ds"
  by (cases s rule: version_group.cases) auto

lemma version_group_inside:
  "version_group (c # mid @ ''-v'' @ ds) = None"
proof (cases mid)
  case Nil
  then show ?thesis by (simp add: not_digit_hyphen)
next
  case (Cons d mid')
  then show ?thesis by (simp add: not_digit_hyphen)
qed

lemma match_name_complete:
  "list_all name_char mid \<Longrightarrow> ds \<noteq> [] \<Longrightarrow> list_all is_digit ds \<Longrightarrow>
   match_name nm (mid @ ''-v'' @ ds) = Some (nm @ mid, Some ds)"
proof (induction mid arbitrary: nm)
  case Nil
  then show ?case by simp
next
  case (Cons c mid)
  have "version_group (c # mid @ ''-v'' @ ds) = None" by (rule version_group_inside)
  with Cons show ?case by simp
qed

lemma match_name_sound:
  "match_name nm s = Some (n, v) \<Longrightarrow>
   \<exists>mid. n = nm @ mid \<and> list_all name_char mid \<and>
     (case v of None \<Rightarrow> s = mid
      | Some ds \<Rightarrow> s = mid @ ''-v'' @ ds \<and> ds \<noteq> [] \<and> list_all is_digit ds)"
proof (induction nm s rule: match_name.induct)
  case (1 nm)
  then show ?case by auto
next
  case (2 nm c cs)
  show ?case
  proof (cases "version_group (c # cs)")
    case (Some ds)
    with "2.prems" have eq: "n = nm" "v = Some ds" by auto
    have "c # cs = ''-v'' @ ds \<and> ds \<noteq> [] \<and> list_all is_digit ds"
      by (rule iffD1 [OF version_group_Some_iff Some])
    with eq show ?thesis by (intro exI [of _ "[]"]) simp
  next
    case None
    with "2.prems" have nc: "name_char c" and m: "match_name (nm @ [c]) cs = Some (n, v)"
      by (auto split: if_splits)
    from "2.IH" [OF None nc m] obtain mid where
      mid: "n = (nm @ [c]) @ mid" "list_all name_char mid"
        "(case v of None \<Rightarrow> cs = mid
          | Some ds \<Rightarrow> cs = mid @ ''-v'' @ ds \<and> ds \<noteq> [] \<and> list_all is_digit ds)"
      by blast
    with nc show ?thesis
      by (intro exI [of _ "c # mid"]) (auto split: option.splits)
  qed
qed

lemma has_version_suffix_iff:
  "has_version_suffix s \<longleftrightarrow> (\<exists>p ds. s = p @ ''-v'' @ ds \<and> ds \<noteq> [] \<and> list_all is_digit ds)"
proof (induction s)
  case Nil
  then show ?case by simp
next
  case (Cons c cs)
  show ?case
  proof
    assume "has_version_suffix (c # cs)"
    then consider ds where "version_group (c # cs) = Some ds" | "has_version_suffix cs"
      by auto
    then show "\<exists>p ds. c # cs = p @ ''-v'' @ ds \<and> ds \<noteq> [] \<and> list_all is_digit ds"
    proof cases
      case 1
      have "c # cs = ''-v'' @ ds \<and> ds \<noteq> [] \<and> list_all is_digit ds"
        by (rule iffD1 [OF version_group_Some_iff 1])
      then have "c # cs = [] @ ''-v'' @ ds \<and> ds \<noteq> [] \<and> list_all is_digit ds"
        by simp
      then show ?thesis by blast
    next
      case 2
      with Cons obtain p ds where "cs = p @ ''-v'' @ ds \<and> ds \<noteq> [] \<and> list_all is_digit ds"
        by blast
      then have "c # cs = (c # p) @ ''-v'' @ ds \<and> ds \<noteq> [] \<and> list_all is_digit ds" by simp
      then show ?thesis by blast
    qed
  next
    assume "\<exists>p ds. c # cs = p @ ''-v'' @ ds \<and> ds \<noteq> [] \<and> list_all is_digit ds"
    then obtain p ds where e: "c # cs = p @ ''-v'' @ ds" "ds \<noteq> []" "list_all is_digit ds"
      by blast
    show "has_version_suffix (c # cs)"
    proof (cases p)
      case Nil
      with e have "c # cs = ''-v'' @ ds \<and> ds \<noteq> [] \<and> list_all is_digit ds"
        by simp
      then have "version_group (c # cs) = Some ds"
        by (rule iffD2 [OF version_group_Some_iff])
      then show ?thesis by simp
    next
      case (Cons c' p')
      with e have "cs = p' @ ''-v'' @ ds" by simp
      with e Cons.IH have "has_version_suffix cs" by blast
      then show ?thesis by simp
    qed
  qed
qed

lemma match_name_no_suffix:
  "list_all name_char s \<Longrightarrow> \<not> has_version_suffix s \<Longrightarrow> match_name nm s = Some (nm @ s, None)"
  by (induction s arbitrary: nm) auto

subsection \<open>The parser and the formatter\<close>

lemma get_env_id_Some: "0 \<le> v \<Longrightarrow> get_env_id n (Some v) = n @ ''-v'' @ str_nat (nat v)"
  by (simp add: get_env_id_def str_int_def)

lemma parse_get_env_id:
  assumes "n \<noteq> []" and "list_all name_char n" and "0 \<le> v"
  shows "parse_env_id (get_env_id n (Some v)) = Inr (n, v)"
proof -
  from assms(1) obtain c mid where n: "n = c # mid" by (cases n) auto
  with assms(2) have c: "name_char c" and mid: "list_all name_char mid" by auto
  let ?ds = "str_nat (nat v)"
  have "match_name [c] (mid @ ''-v'' @ ?ds) = Some ([c] @ mid, Some ?ds)"
    using mid str_nat_nonempty str_nat_digits by (rule match_name_complete)
  with c n have "ENV_NAME_RE_fullmatch (n @ ''-v'' @ ?ds) = Some (n, Some ?ds)" by simp
  with assms(3) show ?thesis
    by (simp add: parse_env_id_def get_env_id_Some int_of_digits_str_nat)
qed

lemma fullmatch_sound:
  assumes "ENV_NAME_RE_fullmatch s = Some (n, v)"
  shows "n \<noteq> [] \<and> list_all name_char n \<and>
     (case v of None \<Rightarrow> s = n
      | Some ds \<Rightarrow> s = n @ ''-v'' @ ds \<and> ds \<noteq> [] \<and> list_all is_digit ds)"
proof (cases s)
  case Nil
  with assms show ?thesis by simp
next
  case (Cons c cs)
  with assms have c: "name_char c" and m: "match_name [c] cs = Some (n, v)"
    by (auto split: if_splits)
  from match_name_sound [OF m] obtain mid where
    "n = [c] @ mid" "list_all name_char mid"
    "(case v of None \<Rightarrow> cs = mid
      | Some ds \<Rightarrow> cs = mid @ ''-v'' @ ds \<and> ds \<noteq> [] \<and> list_all is_digit ds)"
    by blast
  with c Cons show ?thesis by (auto split: option.splits)
qed

lemma parse_env_id_sound:
  assumes "parse_env_id s = Inr (n, v)"
  shows "n \<noteq> [] \<and> list_all name_char n \<and> 0 \<le> v \<and>
     (s = n \<and> v = 0 \<or>
      (\<exists>ds. s = n @ ''-v'' @ ds \<and> ds \<noteq> [] \<and> list_all is_digit ds \<and> v = int_of_digits ds))"
proof -
  from assms obtain w where fm: "ENV_NAME_RE_fullmatch s = Some (n, w)"
    and v: "v = (case w of None \<Rightarrow> 0 | Some ds \<Rightarrow> int_of_digits ds)"
    by (auto simp: parse_env_id_def split: option.splits)
  from fullmatch_sound [OF fm] v show ?thesis
    by (cases w) (auto simp: int_of_digits_nonneg)
qed

lemma parse_env_id_no_suffix:
  assumes "s \<noteq> []" and "list_all name_char s" and "\<not> has_version_suffix s"
  shows "parse_env_id s = Inr (s, 0)"
proof -
  from assms(1) obtain c cs where s: "s = c # cs" by (cases s) auto
  with assms have c: "name_char c" and cs: "list_all name_char cs" and
    nv: "\<not> has_version_suffix cs" by auto
  from cs nv have "match_name [c] cs = Some ([c] @ cs, None)" by (rule match_name_no_suffix)
  with c s show ?thesis by (simp add: parse_env_id_def)
qed

subsection \<open>Dictionaries\<close>

lemma update_fresh: "k \<notin> set (map fst al) \<Longrightarrow> AList.update k v al = al @ [(k, v)]"
  by (induction al) auto

lemma map_of_update_items: "map_of (update_items d kw) = map_of d ++ map_of (rev kw)"
proof (induction kw arbitrary: d)
  case Nil
  show ?case by (simp add: update_items_def)
next
  case (Cons p kw)
  obtain k v where p: "p = (k, v)" by (cases p)
  have "update_items d (p # kw) = update_items (AList.update k v d) kw"
    by (simp add: update_items_def p)
  then have "map_of (update_items d (p # kw)) = map_of (AList.update k v d) ++ map_of (rev kw)"
    by (simp add: Cons.IH)
  also have "\<dots> = map_of d ++ map_of (rev (p # kw))"
    by (simp add: p update_conv' map_add_def fun_eq_iff split: option.splits)
  finally show ?case .
qed

lemma update_items_Nil: "update_items d [] = d"
  by (simp add: update_items_def)

lemma map_of_rev_distinct: "distinct (map fst kw) \<Longrightarrow> map_of (rev kw) = map_of kw"
  by (subst map_of_inject_set) (auto simp: rev_map [symmetric])

subsection \<open>Building a record\<close>

lemma EnvSpec_init_rejected:
  "extra \<noteq> [] \<Longrightarrow> EnvSpec_init h ident ep kwargs_arg extra = (Inl TypeError, h)"
  by (simp add: EnvSpec_init_def)

lemma EnvSpec_init_accepted:
  assumes "parse_env_id ident = Inr (n, v)"
  shows "\<exists>ref h'. EnvSpec_init h ident ep kwargs_arg [] =
           (Inr \<lparr>id_str = ident, entry_point = ep, kwargs = ref, name = n, version = v\<rparr>, h') \<and>
         (\<exists>ds. h' = h @ ds) \<and>
         (case kwargs_arg of Some a \<Rightarrow> ref = a \<and> h' = h
          | None \<Rightarrow> ref = length h \<and> h' = h @ [[]])"
  using assms
  by (auto simp: EnvSpec_init_def alloc_def split: option.splits)

lemma EnvSpec_init_store:
  "EnvSpec_init h ident ep kwargs_arg extra = (r, h') \<Longrightarrow> \<exists>ds. h' = h @ ds"
  by (auto simp: EnvSpec_init_def alloc_def Let_def split: if_splits option.splits sum.splits prod.splits)

subsection \<open>Registering\<close>

lemma canonical_parses:
  assumes "parse_env_id ident = Inr (n, v)"
  shows "parse_env_id (get_env_id n (Some v)) = Inr (n, v)"
proof -
  from parse_env_id_sound [OF assms] have "n \<noteq> []" "list_all name_char n" "0 \<le> v" by auto
  then show ?thesis by (rule parse_get_env_id)
qed

lemma max_default_None: "max_default xs = None \<longleftrightarrow> xs = []"
  by (cases xs) auto

lemma latest_version_None:
  "max_default (map version (filter (\<lambda>s. name s = n) (map snd reg))) = None \<longleftrightarrow>
   (\<forall>s \<in> set (map snd reg). name s \<noteq> n)"
  by (auto simp: max_default_None filter_empty_conv)

lemma check_duplicate:
  "id_str spec \<in> set (map fst reg) \<Longrightarrow>
   check_registration_is_allowed reg spec =
     Inl (DuplicateRegistration (duplicate_message (id_str spec)))"
  by (simp add: check_registration_is_allowed_def)

lemma check_gap:
  "id_str spec \<notin> set (map fst reg) \<Longrightarrow> version spec \<noteq> 0 \<Longrightarrow>
   \<forall>s \<in> set (map snd reg). name s \<noteq> name spec \<Longrightarrow>
   check_registration_is_allowed reg spec =
     Inl (VersionGapError (version_gap_message (version spec)))"
  using latest_version_None [of "name spec" reg]
  by (simp add: check_registration_is_allowed_def Let_def)

lemma check_allowed:
  "id_str spec \<notin> set (map fst reg) \<Longrightarrow>
   version spec = 0 \<or> (\<exists>s \<in> set (map snd reg). name s = name spec) \<Longrightarrow>
   check_registration_is_allowed reg spec = Inr ()"
  using latest_version_None [of "name spec" reg]
  by (auto simp: check_registration_is_allowed_def Let_def)

lemma register_malformed:
  "parse_env_id ident = Inl e \<Longrightarrow> register st ident ep kwargs_arg extra = (Inl e, st)"
  by (simp add: register_def)

lemma make_malformed:
  "parse_env_id ident = Inl e \<Longrightarrow> make imp st ident args kw = (Inl e, st)"
  by (simp add: make_def)

lemma register_rejected:
  "parse_env_id ident = Inr (n, v) \<Longrightarrow> extra \<noteq> [] \<Longrightarrow>
   register st ident ep kwargs_arg extra = (Inl TypeError, st)"
  by (simp add: register_def EnvSpec_init_rejected)

lemma register_accepted:
  assumes "parse_env_id ident = Inr (n, v)"
  shows "\<exists>ref h.
     (case kwargs_arg of
        Some a \<Rightarrow> ref = a \<and> h = store st
      | None \<Rightarrow> ref = length (store st) \<and> h = store st @ [[]]) \<and>
     register st ident ep kwargs_arg [] =
       (case check_registration_is_allowed (REGISTRY st)
               \<lparr>id_str = get_env_id n (Some v), entry_point = ep, kwargs = ref,
                name = n, version = v\<rparr> of
          Inl e \<Rightarrow> (Inl e, st\<lparr>store := h\<rparr>)
        | Inr u \<Rightarrow>
            (Inr (),
             \<lparr>REGISTRY = AList.update (get_env_id n (Some v))
                 \<lparr>id_str = get_env_id n (Some v), entry_point = ep, kwargs = ref,
                  name = n, version = v\<rparr> (REGISTRY st),
              store = h\<rparr>))"
proof -
  have p: "parse_env_id (get_env_id n (Some v)) = Inr (n, v)"
    using assms by (rule canonical_parses)
  from EnvSpec_init_accepted [OF p, where h = "store st" and ep = ep and kwargs_arg = kwargs_arg]
  obtain ref h where
    i: "EnvSpec_init (store st) (get_env_id n (Some v)) ep kwargs_arg [] =
          (Inr \<lparr>id_str = get_env_id n (Some v), entry_point = ep, kwargs = ref,
                name = n, version = v\<rparr>, h)" and
    c: "(case kwargs_arg of
          Some a \<Rightarrow> ref = a \<and> h = store st
        | None \<Rightarrow> ref = length (store st) \<and> h = store st @ [[]])"
    by blast
  have "register st ident ep kwargs_arg [] =
       (case check_registration_is_allowed (REGISTRY st)
               \<lparr>id_str = get_env_id n (Some v), entry_point = ep, kwargs = ref,
                name = n, version = v\<rparr> of
          Inl e \<Rightarrow> (Inl e, st\<lparr>store := h\<rparr>)
        | Inr u \<Rightarrow>
            (Inr (),
             \<lparr>REGISTRY = AList.update (get_env_id n (Some v))
                 \<lparr>id_str = get_env_id n (Some v), entry_point = ep, kwargs = ref,
                  name = n, version = v\<rparr> (REGISTRY st),
              store = h\<rparr>))"
    by (simp add: register_def assms i Let_def)
  with c show ?thesis by blast
qed

lemma register_duplicate:
  assumes "parse_env_id ident = Inr (n, v)"
    and "get_env_id n (Some v) \<in> set (map fst (REGISTRY st))"
  shows "fst (register st ident ep kwargs_arg []) =
           Inl (DuplicateRegistration (duplicate_message (get_env_id n (Some v)))) \<and>
         REGISTRY (snd (register st ident ep kwargs_arg [])) = REGISTRY st"
proof -
  from register_accepted [OF assms(1), where st = st and ep = ep and kwargs_arg = kwargs_arg]
  obtain ref h where
    r: "register st ident ep kwargs_arg [] =
       (case check_registration_is_allowed (REGISTRY st)
               \<lparr>id_str = get_env_id n (Some v), entry_point = ep, kwargs = ref,
                name = n, version = v\<rparr> of
          Inl e \<Rightarrow> (Inl e, st\<lparr>store := h\<rparr>)
        | Inr u \<Rightarrow>
            (Inr (),
             \<lparr>REGISTRY = AList.update (get_env_id n (Some v))
                 \<lparr>id_str = get_env_id n (Some v), entry_point = ep, kwargs = ref,
                  name = n, version = v\<rparr> (REGISTRY st),
              store = h\<rparr>))"
    by blast
  show ?thesis
    unfolding r using assms(2) by (simp add: check_duplicate)
qed

lemma register_gap:
  assumes "parse_env_id ident = Inr (n, v)"
    and "get_env_id n (Some v) \<notin> set (map fst (REGISTRY st))"
    and "v \<noteq> 0" and "\<forall>s \<in> set (map snd (REGISTRY st)). name s \<noteq> n"
  shows "fst (register st ident ep kwargs_arg []) = Inl (VersionGapError (version_gap_message v)) \<and>
         REGISTRY (snd (register st ident ep kwargs_arg [])) = REGISTRY st"
proof -
  from register_accepted [OF assms(1), where st = st and ep = ep and kwargs_arg = kwargs_arg]
  obtain ref h where
    r: "register st ident ep kwargs_arg [] =
       (case check_registration_is_allowed (REGISTRY st)
               \<lparr>id_str = get_env_id n (Some v), entry_point = ep, kwargs = ref,
                name = n, version = v\<rparr> of
          Inl e \<Rightarrow> (Inl e, st\<lparr>store := h\<rparr>)
        | Inr u \<Rightarrow>
            (Inr (),
             \<lparr>REGISTRY = AList.update (get_env_id n (Some v))
                 \<lparr>id_str = get_env_id n (Some v), entry_point = ep, kwargs = ref,
                  name = n, version = v\<rparr> (REGISTRY st),
              store = h\<rparr>))"
    by blast
  show ?thesis
    unfolding r using assms(2-4) by (simp add: check_gap)
qed

lemma register_success:
  assumes "parse_env_id ident = Inr (n, v)"
    and "get_env_id n (Some v) \<notin> set (map fst (REGISTRY st))"
    and "v = 0 \<or> (\<exists>s \<in> set (map snd (REGISTRY st)). name s = n)"
  shows "\<exists>ref h.
     (case kwargs_arg of
        Some a \<Rightarrow> ref = a \<and> h = store st
      | None \<Rightarrow> ref = length (store st) \<and> h = store st @ [[]]) \<and>
     register st ident ep kwargs_arg [] =
       (Inr (),
        \<lparr>REGISTRY = REGISTRY st @
           [(get_env_id n (Some v),
             \<lparr>id_str = get_env_id n (Some v), entry_point = ep, kwargs = ref,
              name = n, version = v\<rparr>)],
         store = h\<rparr>)"
proof -
  from register_accepted [OF assms(1), where st = st and ep = ep and kwargs_arg = kwargs_arg]
  obtain ref h where
    c: "(case kwargs_arg of
          Some a \<Rightarrow> ref = a \<and> h = store st
        | None \<Rightarrow> ref = length (store st) \<and> h = store st @ [[]])" and
    r: "register st ident ep kwargs_arg [] =
       (case check_registration_is_allowed (REGISTRY st)
               \<lparr>id_str = get_env_id n (Some v), entry_point = ep, kwargs = ref,
                name = n, version = v\<rparr> of
          Inl e \<Rightarrow> (Inl e, st\<lparr>store := h\<rparr>)
        | Inr u \<Rightarrow>
            (Inr (),
             \<lparr>REGISTRY = AList.update (get_env_id n (Some v))
                 \<lparr>id_str = get_env_id n (Some v), entry_point = ep, kwargs = ref,
                  name = n, version = v\<rparr> (REGISTRY st),
              store = h\<rparr>))"
    by blast
  have "check_registration_is_allowed (REGISTRY st)
          \<lparr>id_str = get_env_id n (Some v), entry_point = ep, kwargs = ref,
           name = n, version = v\<rparr> = Inr ()"
    using assms(2,3) by (intro check_allowed) simp_all
  with r assms(2) have "register st ident ep kwargs_arg [] =
       (Inr (),
        \<lparr>REGISTRY = REGISTRY st @
           [(get_env_id n (Some v),
             \<lparr>id_str = get_env_id n (Some v), entry_point = ep, kwargs = ref,
              name = n, version = v\<rparr>)],
         store = h\<rparr>)"
    by (simp add: update_fresh)
  with c show ?thesis by blast
qed

lemma register_store:
  assumes "register st ident ep kwargs_arg extra = (r, st')"
  shows "\<exists>ds. store st' = store st @ ds"
proof (cases "parse_env_id ident")
  case (Inl e)
  with assms show ?thesis by (simp add: register_def)
next
  case (Inr p)
  obtain n v where p: "p = (n, v)" by (cases p)
  obtain ri h where i: "EnvSpec_init (store st) (get_env_id n (Some v)) ep kwargs_arg extra = (ri, h)"
    by (cases "EnvSpec_init (store st) (get_env_id n (Some v)) ep kwargs_arg extra")
  from EnvSpec_init_store [OF i] obtain ds where h: "h = store st @ ds" by blast
  from assms Inr p i have "store st' = h"
    by (auto simp: register_def Let_def split: sum.splits)
  with h show ?thesis by blast
qed

text \<open>What any call of \<^verbatim>\<open>register\<close> does to the state.\<close>

lemma register_outcome:
  assumes "register st ident ep kwargs_arg extra = (r, st')"
  shows "(\<exists>ds. store st' = store st @ ds) \<and>
     (case r of
        Inl e \<Rightarrow> REGISTRY st' = REGISTRY st
      | Inr u \<Rightarrow>
          (\<exists>n v ref. parse_env_id ident = Inr (n, v) \<and> extra = [] \<and>
             get_env_id n (Some v) \<notin> set (map fst (REGISTRY st)) \<and>
             (v = 0 \<or> (\<exists>s \<in> set (map snd (REGISTRY st)). name s = n)) \<and>
             (case kwargs_arg of
                Some a \<Rightarrow> ref = a \<and> store st' = store st
              | None \<Rightarrow> ref = length (store st) \<and> store st' = store st @ [[]]) \<and>
             REGISTRY st' = REGISTRY st @
               [(get_env_id n (Some v),
                 \<lparr>id_str = get_env_id n (Some v), entry_point = ep, kwargs = ref,
                  name = n, version = v\<rparr>)]))"
proof (cases "parse_env_id ident")
  case (Inl e)
  with assms register_store [OF assms] show ?thesis by (auto simp: register_malformed)
next
  case (Inr p)
  obtain n v where p: "p = (n, v)" by (cases p)
  with Inr have parse: "parse_env_id ident = Inr (n, v)" by simp
  show ?thesis
  proof (cases "extra = []")
    case False
    with parse assms register_store [OF assms] show ?thesis by (auto simp: register_rejected)
  next
    case True
    note acc = this and call = assms [unfolded this]
    show ?thesis
    proof (cases "get_env_id n (Some v) \<in> set (map fst (REGISTRY st))")
      case True
      from register_duplicate [OF parse True, where ep = ep and kwargs_arg = kwargs_arg] call
      have "\<exists>e. r = Inl e" "REGISTRY st' = REGISTRY st" by auto
      moreover note register_store [OF assms]
      ultimately show ?thesis by auto
    next
      case False
      note fresh = this
      show ?thesis
      proof (cases "v = 0 \<or> (\<exists>s \<in> set (map snd (REGISTRY st)). name s = n)")
        case True
        from register_success [OF parse fresh True, where ep = ep and kwargs_arg = kwargs_arg] call
        obtain ref h where
          c: "(case kwargs_arg of
                Some a \<Rightarrow> ref = a \<and> h = store st
              | None \<Rightarrow> ref = length (store st) \<and> h = store st @ [[]])" and
          r: "r = Inr ()" and
          st': "st' = \<lparr>REGISTRY = REGISTRY st @
                 [(get_env_id n (Some v),
                   \<lparr>id_str = get_env_id n (Some v), entry_point = ep, kwargs = ref,
                    name = n, version = v\<rparr>)],
               store = h\<rparr>"
          by auto
        note register_store [OF assms]
        moreover from c st' have "(case kwargs_arg of
                Some a \<Rightarrow> ref = a \<and> store st' = store st
              | None \<Rightarrow> ref = length (store st) \<and> store st' = store st @ [[]])"
          by (auto split: option.splits)
        ultimately show ?thesis
          using r st' parse acc fresh True by auto
      next
        case False
        then have "v \<noteq> 0" "\<forall>s \<in> set (map snd (REGISTRY st)). name s \<noteq> n" by auto
        from register_gap [OF parse fresh this, where ep = ep and kwargs_arg = kwargs_arg] call
        have "\<exists>e. r = Inl e" "REGISTRY st' = REGISTRY st" by auto
        moreover note register_store [OF assms]
        ultimately show ?thesis by auto
      qed
    qed
  qed
qed

subsection \<open>The registries that are built\<close>

lemma registry_ok_empty: "registry_ok (REGISTRY empty_state)"
  by (simp add: registry_ok_def empty_state_def)

lemma registry_ok_register:
  assumes "registry_ok (REGISTRY st)" and "register st ident ep kwargs_arg extra = (r, st')"
  shows "registry_ok (REGISTRY st')"
proof (cases r)
  case (Inl e)
  with register_outcome [OF assms(2)] assms(1) show ?thesis by simp
next
  case (Inr u)
  with register_outcome [OF assms(2)] obtain n v ref where
    parse: "parse_env_id ident = Inr (n, v)" and
    fresh: "get_env_id n (Some v) \<notin> set (map fst (REGISTRY st))" and
    reg: "REGISTRY st' = REGISTRY st @
               [(get_env_id n (Some v),
                 \<lparr>id_str = get_env_id n (Some v), entry_point = ep, kwargs = ref,
                  name = n, version = v\<rparr>)]"
    by auto
  from parse have "parse_env_id (get_env_id n (Some v)) = Inr (n, v)"
    by (rule canonical_parses)
  with assms(1) fresh show ?thesis
    by (simp add: registry_ok_def reg)
qed

lemma registry_ok_lookup:
  assumes "registry_ok reg" and "(k, s) \<in> set reg"
  shows "id_str s = k \<and> parse_env_id k = Inr (name s, version s)"
  using assms by (auto simp: registry_ok_def list_all_iff)

lemma registry_ok_same_name:
  assumes "registry_ok reg" and "parse_env_id ident = Inr (n, v)"
    and "get_env_id n (Some v) \<in> set (map fst reg)"
  shows "\<exists>s \<in> set (map snd reg). name s = n"
proof -
  from assms(3) obtain s where s: "(get_env_id n (Some v), s) \<in> set reg" by auto
  from registry_ok_lookup [OF assms(1) s]
  have "parse_env_id (get_env_id n (Some v)) = Inr (name s, version s)" by simp
  with canonical_parses [OF assms(2)] have "name s = n" by simp
  with s show ?thesis by force
qed

lemma refs_ok_register:
  assumes "refs_ok st"
    and "case kwargs_arg of None \<Rightarrow> True | Some a \<Rightarrow> a < length (store st)"
    and "register st ident ep kwargs_arg extra = (r, st')"
  shows "refs_ok st'"
proof -
  from register_outcome [OF assms(3)] obtain ds where ds: "store st' = store st @ ds"
    by blast
  show ?thesis
  proof (cases r)
    case (Inl e)
    with register_outcome [OF assms(3)] have "REGISTRY st' = REGISTRY st" by simp
    with assms(1) ds show ?thesis by (auto simp: refs_ok_def list_all_iff)
  next
    case (Inr u)
    with register_outcome [OF assms(3)] obtain n v ref where
      c: "(case kwargs_arg of
                Some a \<Rightarrow> ref = a \<and> store st' = store st
              | None \<Rightarrow> ref = length (store st) \<and> store st' = store st @ [[]])" and
      reg: "REGISTRY st' = REGISTRY st @
               [(get_env_id n (Some v),
                 \<lparr>id_str = get_env_id n (Some v), entry_point = ep, kwargs = ref,
                  name = n, version = v\<rparr>)]"
      by auto
    have "ref < length (store st')"
    proof (cases kwargs_arg)
      case None
      with c show ?thesis by simp
    next
      case (Some a)
      with assms(2) have "a < length (store st)" by simp
      with c Some ds show ?thesis by simp
    qed
    with assms(1) ds reg show ?thesis by (auto simp: refs_ok_def list_all_iff)
  qed
qed

subsection \<open>Making an environment\<close>

lemma make_unregistered:
  assumes "parse_env_id ident = Inr (n, v)"
    and "get_env_id n (Some v) \<notin> set (map fst (REGISTRY st))"
  shows "make imp st ident args kw =
     (Inl (UnregisteredEnvironment
             (unregistered_message (get_env_id n (Some v)) (map fst (REGISTRY st)))), st)"
proof -
  from assms(2) have "map_of (REGISTRY st) (get_env_id n (Some v)) = None"
    by (simp add: map_of_eq_None_iff)
  with assms(1) show ?thesis by (simp add: make_def)
qed

lemma make_registered:
  assumes "parse_env_id ident = Inr (n, v)"
    and "map_of (REGISTRY st) (get_env_id n (Some v)) = Some spec"
  shows "make imp st ident args kw =
     (case load imp (entry_point spec) of
        Inl e \<Rightarrow> Inl e
      | Inr env_fn \<Rightarrow> env_fn args (update_items (store st ! kwargs spec) kw),
      st\<lparr>store := store st @ [update_items (store st ! kwargs spec) kw]\<rparr>)"
  using assms
  by (simp add: make_def dict_copy_def alloc_def dict_update_def Let_def split: sum.splits)

lemma make_state:
  assumes "make imp st ident args kw = (r, st')"
  shows "REGISTRY st' = REGISTRY st \<and> (\<exists>ds. store st' = store st @ ds)"
proof (cases "parse_env_id ident")
  case (Inl e)
  with assms show ?thesis by (simp add: make_malformed)
next
  case (Inr p)
  obtain n v where p: "p = (n, v)" by (cases p)
  with Inr have parse: "parse_env_id ident = Inr (n, v)" by simp
  show ?thesis
  proof (cases "map_of (REGISTRY st) (get_env_id n (Some v))")
    case None
    then have "get_env_id n (Some v) \<notin> set (map fst (REGISTRY st))"
      by (simp add: map_of_eq_None_iff)
    from make_unregistered [OF parse this, of imp args kw] assms show ?thesis by simp
  next
    case (Some spec)
    from make_registered [OF parse Some, of imp args kw] assms show ?thesis by auto
  qed
qed

subsection \<open>More on registering\<close>

lemma get_env_id_0: "get_env_id n (Some 0) = n @ ''-v0''"
proof -
  have "str_nat 0 = ''0''" by code_simp
  then show ?thesis by (simp add: get_env_id_Some)
qed

lemma get_env_id_5: "get_env_id n (Some 5) = n @ ''-v5''"
proof -
  have "str_nat 5 = ''5''" by code_simp
  then show ?thesis by (simp add: get_env_id_Some)
qed

lemma one_entry:
  "distinct (map fst reg) \<Longrightarrow> k \<in> set (map fst reg) \<Longrightarrow>
   length (filter (\<lambda>(k', s). k' = k) reg) = 1"
proof (induction reg)
  case Nil
  then show ?case by simp
next
  case (Cons p reg)
  obtain k' s where p: "p = (k', s)" by (cases p)
  show ?case
  proof (cases "k' = k")
    case True
    with Cons.prems p have "k \<notin> set (map fst reg)" by simp
    then have "filter (\<lambda>(k', s). k' = k) reg = []" by (force simp: filter_empty_conv)
    with True p show ?thesis by simp
  next
    case False
    with Cons p show ?thesis by simp
  qed
qed

lemma register_gap_only:
  assumes "parse_env_id ident = Inr (n, v)"
    and "fst (register st ident ep kwargs_arg extra) = Inl (VersionGapError msg)"
  shows "extra = [] \<and> v \<noteq> 0 \<and> (\<forall>s \<in> set (map snd (REGISTRY st)). name s \<noteq> n) \<and>
         get_env_id n (Some v) \<notin> set (map fst (REGISTRY st)) \<and> msg = version_gap_message v"
proof -
  have e: "extra = []"
  proof (rule ccontr)
    assume "extra \<noteq> []"
    from register_rejected [OF assms(1) this, where st = st and ep = ep and kwargs_arg = kwargs_arg]
      assms(2) show False by simp
  qed
  have fresh: "get_env_id n (Some v) \<notin> set (map fst (REGISTRY st))"
  proof
    assume "get_env_id n (Some v) \<in> set (map fst (REGISTRY st))"
    from register_duplicate [OF assms(1) this, where ep = ep and kwargs_arg = kwargs_arg]
      assms(2) e show False by simp
  qed
  have gap: "\<not> (v = 0 \<or> (\<exists>s \<in> set (map snd (REGISTRY st)). name s = n))"
  proof
    assume "v = 0 \<or> (\<exists>s \<in> set (map snd (REGISTRY st)). name s = n)"
    from register_success [OF assms(1) fresh this, where ep = ep and kwargs_arg = kwargs_arg]
      assms(2) e show False by auto
  qed
  then have g: "v \<noteq> 0" "\<forall>s \<in> set (map snd (REGISTRY st)). name s \<noteq> n" by auto
  from register_gap [OF assms(1) fresh g, where ep = ep and kwargs_arg = kwargs_arg]
    assms(2) e have "msg = version_gap_message v" by simp
  with e fresh g show ?thesis by simp
qed

lemma register_failed:
  assumes "fst (register st ident ep kwargs_arg extra) = Inl e"
  shows "REGISTRY (snd (register st ident ep kwargs_arg extra)) = REGISTRY st"
proof -
  obtain r st' where r: "register st ident ep kwargs_arg extra = (r, st')"
    by (cases "register st ident ep kwargs_arg extra")
  with assms have "r = Inl e" by simp
  with register_outcome [OF r] r show ?thesis by simp
qed

subsection \<open>More on making\<close>

lemma make_result:
  assumes "parse_env_id ident = Inr (n, v)"
    and "map_of (REGISTRY st) (get_env_id n (Some v)) = Some spec"
  shows "fst (make imp st ident args kw) =
     (case load imp (entry_point spec) of
        Inl e \<Rightarrow> Inl e
      | Inr env_fn \<Rightarrow> env_fn args (update_items (store st ! kwargs spec) kw))"
  by (simp add: make_registered [OF assms])

lemma make_canonical:
  assumes "parse_env_id ident = Inr (n, v)"
  shows "make imp st ident args kw = make imp st (get_env_id n (Some v)) args kw"
  using assms canonical_parses [OF assms] by (simp add: make_def)

lemma make_success:
  assumes "make imp st ident args kw = (Inr env, st')"
  shows "\<exists>n v spec env_fn.
     parse_env_id ident = Inr (n, v) \<and>
     map_of (REGISTRY st) (get_env_id n (Some v)) = Some spec \<and>
     load imp (entry_point spec) = Inr env_fn \<and>
     env_fn args (update_items (store st ! kwargs spec) kw) = Inr env \<and>
     st' = st\<lparr>store := store st @ [update_items (store st ! kwargs spec) kw]\<rparr>"
proof (cases "parse_env_id ident")
  case (Inl e)
  with assms show ?thesis by (simp add: make_malformed)
next
  case (Inr p)
  obtain n v where p: "p = (n, v)" by (cases p)
  with Inr have parse: "parse_env_id ident = Inr (n, v)" by simp
  show ?thesis
  proof (cases "map_of (REGISTRY st) (get_env_id n (Some v))")
    case None
    then have "get_env_id n (Some v) \<notin> set (map fst (REGISTRY st))"
      by (simp add: map_of_eq_None_iff)
    from make_unregistered [OF parse this, of imp args kw] assms show ?thesis by simp
  next
    case (Some spec)
    show ?thesis
    proof (cases "load imp (entry_point spec)")
      case (Inl e)
      with make_registered [OF parse Some, of imp args kw] assms show ?thesis by simp
    next
      case (Inr env_fn)
      with make_registered [OF parse Some, of imp args kw] assms parse Some
      show ?thesis by auto
    qed
  qed
qed

lemma refs_ok_lookup:
  "refs_ok st \<Longrightarrow> map_of (REGISTRY st) k = Some spec \<Longrightarrow> kwargs spec < length (store st)"
  by (auto simp: refs_ok_def list_all_iff dest: map_of_SomeD)

lemma merged_lookup:
  assumes "distinct (map fst kw)"
  shows "map_of (update_items d kw) k =
     (case map_of kw k of Some x \<Rightarrow> Some x | None \<Rightarrow> map_of d k)"
  by (simp add: map_of_update_items map_of_rev_distinct [OF assms] map_add_def)

lemma join_Cons:
  "join sep (p # ps) = p @ (case ps of [] \<Rightarrow> [] | q # qs \<Rightarrow> sep @ join sep ps)"
  by (cases ps) simp_all

lemma join_contains:
  "k \<in> set names \<Longrightarrow> \<exists>pre post. join sep (map f names) = pre @ f k @ post"
proof (induction names)
  case Nil
  then show ?case by simp
next
  case (Cons p ps)
  let ?rest = "case map f ps of [] \<Rightarrow> [] | q # qs \<Rightarrow> sep @ join sep (map f ps)"
  have j: "join sep (map f (p # ps)) = f p @ ?rest" by (simp add: join_Cons)
  show ?case
  proof (cases "k = p")
    case True
    with j have "join sep (map f (p # ps)) = [] @ f k @ ?rest" by simp
    then show ?thesis by blast
  next
    case False
    with Cons.prems have in_ps: "k \<in> set ps" by simp
    with Cons.IH obtain pre post where ih: "join sep (map f ps) = pre @ f k @ post"
      by blast
    from in_ps obtain q qs where "map f ps = q # qs" by (cases ps) auto
    with j ih have "join sep (map f (p # ps)) = (f p @ sep @ pre) @ f k @ post" by simp
    then show ?thesis by blast
  qed
qed

lemma unregistered_message_lists:
  assumes "k \<in> set names"
  shows "\<exists>pre post. unregistered_message env_id names = pre @ ''- '' @ k @ post"
proof -
  from join_contains [OF assms, of "[CHR 0x0A]" "\<lambda>name. ''- '' @ name"]
  obtain pre post where
    j: "join [CHR 0x0A] (map (\<lambda>name. ''- '' @ name) names) = pre @ (''- '' @ k) @ post"
    by blast
  have "unregistered_message env_id names =
      (''Unregistered environment '' @ env_id @ ''. '' @
         ''Please select from the registered environments: '' @ [CHR 0x0A] @ pre) @
      ''- '' @ k @ (post @ ''.'')"
    unfolding unregistered_message_def Let_def j by simp
  then show ?thesis by blast
qed

lemma register_all_keys:
  "register_all st0 calls = (ids, st) \<Longrightarrow>
   map fst (REGISTRY st) = map fst (REGISTRY st0) @ ids"
proof (induction calls arbitrary: st0 ids st)
  case Nil
  then show ?case by simp
next
  case (Cons c calls)
  obtain ident ep kwargs_arg extra where c: "c = (ident, ep, kwargs_arg, extra)"
    by (cases c)
  obtain r st1 where r: "register st0 ident ep kwargs_arg extra = (r, st1)"
    by (cases "register st0 ident ep kwargs_arg extra")
  obtain ids1 st2 where all: "register_all st1 calls = (ids1, st2)"
    by (cases "register_all st1 calls")
  from Cons.IH [OF all] have ih: "map fst (REGISTRY st2) = map fst (REGISTRY st1) @ ids1" .
  show ?case
  proof (cases r)
    case (Inl e)
    with register_outcome [OF r] have "REGISTRY st1 = REGISTRY st0" by simp
    moreover from Cons.prems c r all Inl have "ids = ids1" "st = st2" by simp_all
    ultimately show ?thesis using ih by simp
  next
    case (Inr u)
    with register_outcome [OF r] obtain n v spec where
      parse: "parse_env_id ident = Inr (n, v)" and
      reg: "REGISTRY st1 = REGISTRY st0 @ [(get_env_id n (Some v), spec)]"
      by auto
    from Cons.prems c r all Inr parse
    have "ids = get_env_id n (Some v) # ids1" "st = st2" by simp_all
    with reg ih show ?thesis by simp
  qed
qed

lemma registry_ok_register_all:
  "registry_ok (REGISTRY st0) \<Longrightarrow> register_all st0 calls = (ids, st) \<Longrightarrow>
   registry_ok (REGISTRY st)"
proof (induction calls arbitrary: st0 ids st)
  case Nil
  then show ?case by simp
next
  case (Cons c calls)
  obtain ident ep kwargs_arg extra where c: "c = (ident, ep, kwargs_arg, extra)"
    by (cases c)
  obtain r st1 where r: "register st0 ident ep kwargs_arg extra = (r, st1)"
    by (cases "register st0 ident ep kwargs_arg extra")
  obtain ids1 st2 where all: "register_all st1 calls = (ids1, st2)"
    by (cases "register_all st1 calls")
  from registry_ok_register [OF Cons.prems(1) r] have "registry_ok (REGISTRY st1)" .
  from Cons.IH [OF this all] have "registry_ok (REGISTRY st2)" .
  moreover from Cons.prems(2) c r all have "st = st2"
    by (auto split: sum.splits)
  ultimately show ?case by simp
qed

lemma registry_ok_ids:
  "registry_ok reg \<Longrightarrow> map (\<lambda>(k, s). id_str s) reg = map fst reg"
  by (auto simp: registry_ok_def list_all_iff)

lemma refs_ok_empty: "refs_ok empty_state"
  by (simp add: refs_ok_def empty_state_def)

lemma refs_ok_make:
  assumes "refs_ok st" and "make imp st ident args kw = (r, st')"
  shows "refs_ok st'"
proof -
  from make_state [OF assms(2)] obtain ds where
    "REGISTRY st' = REGISTRY st" "store st' = store st @ ds" by blast
  with assms(1) show ?thesis by (auto simp: refs_ok_def list_all_iff)
qed

section \<open>The claims\<close>

subsection \<open>C1: parsing a formatted identifier\<close>

text \<open>
  Claim C1 fails for the empty name. The empty string has only legal characters, and
  \<^verbatim>\<open>get_env_id("", 0)\<close> is \<^verbatim>\<open>-v0\<close>. The name of the grammar has at least one character
  (\<^verbatim>\<open>+?\<close>), so the matcher takes \<^verbatim>\<open>-\<close>, \<^verbatim>\<open>v\<close> and \<^verbatim>\<open>0\<close> into the name, one after the
  other, and \<^verbatim>\<open>parse_env_id\<close> returns the name \<^verbatim>\<open>-v0\<close> with version 0, not the empty
  name.
\<close>

theorem C1_counterexample:
  "list_all name_char '''' \<and> (0::int) \<le> 0 \<and>
   parse_env_id (get_env_id '''' (Some 0)) = Inr (''-v0'', 0) \<and>
   parse_env_id (get_env_id '''' (Some 0)) \<noteq> Inr ('''', 0)"
  by code_simp

text \<open>
  Claim C1, amended: for every non-empty string \<open>n\<close> of legal characters (word
  characters, colons, dots, hyphens) and every non-negative integer \<open>v\<close>, parsing the
  identifier that \<^verbatim>\<open>get_env_id\<close> formats from \<open>n\<close> and \<open>v\<close> returns exactly \<open>(n, v)\<close>.
  (The word characters are those of \<^verbatim>\<open>\w\<close>, the ones above 127 among them.)
\<close>

theorem C1_roundtrip:
  assumes "n \<noteq> []" and "list_all name_char n" and "0 \<le> v"
  shows "parse_env_id (get_env_id n (Some v)) = Inr (n, v)"
proof -
  let ?ds = "str_nat (nat v)"
  from assms(3) have formatted: "get_env_id n (Some v) = n @ ''-v'' @ ?ds"
    by (rule get_env_id_Some)
  from assms(1) obtain c mid where n: "n = c # mid" by (cases n) auto
  with assms(2) have c: "name_char c" and mid: "list_all name_char mid" by auto
  have "match_name [c] (mid @ ''-v'' @ ?ds) = Some ([c] @ mid, Some ?ds)"
    using mid str_nat_nonempty str_nat_digits by (rule match_name_complete)
  with c n have "ENV_NAME_RE_fullmatch (n @ ''-v'' @ ?ds) = Some (n, Some ?ds)" by simp
  moreover from assms(3) have "int_of_digits ?ds = v" by (simp add: int_of_digits_str_nat)
  ultimately show ?thesis by (simp add: parse_env_id_def formatted)
qed

theorem C1_roundtrip_witness:
  "parse_env_id (get_env_id ''cart-pole.a:b_1'' (Some 120)) = Inr (''cart-pole.a:b_1'', 120) \<and>
   get_env_id ''cart-pole.a:b_1'' (Some 120) = ''cart-pole.a:b_1-v120'' \<and>
   parse_env_id (get_env_id (''caf'' @ [CHR 0xE9]) (Some 0)) = Inr (''caf'' @ [CHR 0xE9], 0) \<and>
   get_env_id (''caf'' @ [CHR 0xE9]) (Some 0) = ''caf'' @ [CHR 0xE9] @ ''-v0''"
proof -
  have "''cart-pole.a:b_1'' \<noteq> []" by simp
  moreover have "list_all name_char ''cart-pole.a:b_1''" by code_simp
  moreover have "(0::int) \<le> 120" by simp
  ultimately have "parse_env_id (get_env_id ''cart-pole.a:b_1'' (Some 120)) = Inr (''cart-pole.a:b_1'', 120)"
    by (rule C1_roundtrip)
  moreover have "get_env_id ''cart-pole.a:b_1'' (Some 120) = ''cart-pole.a:b_1-v120''"
    by code_simp
  moreover have "parse_env_id (get_env_id (''caf'' @ [CHR 0xE9]) (Some 0)) = Inr (''caf'' @ [CHR 0xE9], 0)"
  proof (rule C1_roundtrip)
    show "''caf'' @ [CHR 0xE9] \<noteq> []" by simp
    show "list_all name_char (''caf'' @ [CHR 0xE9])" by code_simp
    show "(0::int) \<le> 0" by simp
  qed
  moreover have "get_env_id (''caf'' @ [CHR 0xE9]) (Some 0) = ''caf'' @ [CHR 0xE9] @ ''-v0''"
    by code_simp
  ultimately show ?thesis by simp
qed

subsection \<open>C2: malformed identifiers\<close>

text \<open>
  Claim C2 fails for two of its three identifiers.
  \<^verbatim>\<open>foo-v\<close> and \<^verbatim>\<open>foo-v-1\<close> match the grammar: the hyphen is a character of names, and
  the version group is optional, so each is a name with no version. Parsing them raises
  nothing, and \<^verbatim>\<open>register\<close> accepts both.
\<close>

theorem C2_counterexample:
  "parse_env_id ''foo-v'' = Inr (''foo-v'', 0) \<and>
   parse_env_id ''foo-v-1'' = Inr (''foo-v-1'', 0) \<and>
   fst (register (empty_state :: nat state) ''foo-v'' ''pkg.envs:Foo'' None []) = Inr () \<and>
   fst (register (empty_state :: nat state) ''foo-v-1'' ''pkg.envs:Foo'' None []) = Inr ()"
  by code_simp

text \<open>
  Claim C2, amended: parsing the empty identifier raises the error of a malformed
  identifier, and therefore \<^verbatim>\<open>register\<close> and \<^verbatim>\<open>make\<close> called with it raise that error
  (whatever their other arguments are) and leave the state as it was; \<^verbatim>\<open>foo-v\<close> and
  \<^verbatim>\<open>foo-v-1\<close> are well-formed and parse to themselves as the name, with version 0.
\<close>

theorem C2_malformed:
  "parse_env_id '''' = Inl (MalformedIdentifier (malformed_message '''')) \<and>
   register st '''' ep kwargs_arg extra = (Inl (MalformedIdentifier (malformed_message '''')), st) \<and>
   make imp st '''' args kw = (Inl (MalformedIdentifier (malformed_message '''')), st) \<and>
   parse_env_id ''foo-v'' = Inr (''foo-v'', 0) \<and>
   parse_env_id ''foo-v-1'' = Inr (''foo-v-1'', 0)"
proof -
  have e: "parse_env_id '''' = Inl (MalformedIdentifier (malformed_message ''''))"
    by (simp add: parse_env_id_def)
  have "parse_env_id ''foo-v'' = Inr (''foo-v'', 0)" by code_simp
  moreover have "parse_env_id ''foo-v-1'' = Inr (''foo-v-1'', 0)" by code_simp
  ultimately show ?thesis
    by (simp add: e register_malformed [OF e] make_malformed [OF e])
qed

theorem C2_malformed_witness:
  "register (empty_state :: nat state) '''' ''pkg.envs:Foo'' None [] =
     (Inl (MalformedIdentifier (malformed_message '''')), empty_state) \<and>
   make (\<lambda>m. Inl (Raised ''ModuleNotFoundError'') :: error + (string \<rightharpoonup> (nat, unit) constructor))
     empty_state '''' [] [] =
     (Inl (MalformedIdentifier (malformed_message '''')), empty_state) \<and>
   malformed_message '''' =
     ''Malformed environment name: .All ID'' @ [CHR 0x27] @
     ''s must be of the form (env-name)[-v(version-number)].''"
proof -
  have "malformed_message '''' =
     ''Malformed environment name: .All ID'' @ [CHR 0x27] @
     ''s must be of the form (env-name)[-v(version-number)].''"
    by (simp add: malformed_message_def)
  with C2_malformed [of "empty_state :: nat state" "''pkg.envs:Foo''" None "[]"
      "\<lambda>m. Inl (Raised ''ModuleNotFoundError'')" "[]" "[]"]
  show ?thesis by blast
qed

subsection \<open>C3: what counts as a version suffix\<close>

text \<open>
  Claim C3: a string of legal characters that has a \<^verbatim>\<open>-v\<close> (so it is not empty) and does
  not end in \<^verbatim>\<open>-v\<close> followed by one or more digits and nothing else, such as \<^verbatim>\<open>foo-v\<close>,
  \<^verbatim>\<open>foo-vx\<close> and \<^verbatim>\<open>foo-v-1\<close>, parses to the whole string as the name, with version 0.
  A trailing \<^verbatim>\<open>-v\<close> followed by one or more digits is the version suffix: a non-empty
  string \<open>m\<close> of legal characters, then \<^verbatim>\<open>-v\<close>, then a non-empty string of digits parses to
  the name \<open>m\<close> and the value of the digits as the version. And only that is: whenever
  the name returned is not the whole string, the string is that name, then \<^verbatim>\<open>-v\<close>, then
  a non-empty string of digits, whose value is the version returned.
  (\<open>has_version_suffix_iff\<close> says what \<open>has_version_suffix\<close> means.)
\<close>

theorem C3_suffix:
  "(s \<noteq> [] \<and> list_all name_char s \<and> \<not> has_version_suffix s \<longrightarrow> parse_env_id s = Inr (s, 0)) \<and>
   (m \<noteq> [] \<and> list_all name_char m \<and> digits \<noteq> [] \<and> list_all is_digit digits \<longrightarrow>
      parse_env_id (m @ ''-v'' @ digits) = Inr (m, int_of_digits digits)) \<and>
   (\<forall>n v. parse_env_id s = Inr (n, v) \<and> n \<noteq> s \<longrightarrow>
      (\<exists>ds. s = n @ ''-v'' @ ds \<and> ds \<noteq> [] \<and> list_all is_digit ds \<and> v = int_of_digits ds))"
proof (intro conjI impI allI)
  assume "s \<noteq> [] \<and> list_all name_char s \<and> \<not> has_version_suffix s"
  then show "parse_env_id s = Inr (s, 0)" by (simp add: parse_env_id_no_suffix)
next
  assume a: "m \<noteq> [] \<and> list_all name_char m \<and> digits \<noteq> [] \<and> list_all is_digit digits"
  then obtain c mid where m: "m = c # mid" by (cases m) auto
  with a have c: "name_char c" and mid: "list_all name_char mid"
    and ds: "digits \<noteq> []" "list_all is_digit digits" by auto
  from mid ds have "match_name [c] (mid @ ''-v'' @ digits) = Some ([c] @ mid, Some digits)"
    by (rule match_name_complete)
  with c m have "ENV_NAME_RE_fullmatch (m @ ''-v'' @ digits) = Some (m, Some digits)" by simp
  then show "parse_env_id (m @ ''-v'' @ digits) = Inr (m, int_of_digits digits)"
    by (simp add: parse_env_id_def)
next
  fix n v
  assume a: "parse_env_id s = Inr (n, v) \<and> n \<noteq> s"
  then have "parse_env_id s = Inr (n, v)" by simp
  from parse_env_id_sound [OF this] a
  show "\<exists>ds. s = n @ ''-v'' @ ds \<and> ds \<noteq> [] \<and> list_all is_digit ds \<and> v = int_of_digits ds"
    by auto
qed

theorem C3_suffix_witness:
  "parse_env_id ''foo-v'' = Inr (''foo-v'', 0) \<and>
   parse_env_id ''foo-vx'' = Inr (''foo-vx'', 0) \<and>
   parse_env_id ''foo-v-1'' = Inr (''foo-v-1'', 0) \<and>
   parse_env_id (''caf'' @ [CHR 0xE9] @ ''-v'') = Inr (''caf'' @ [CHR 0xE9] @ ''-v'', 0) \<and>
   parse_env_id ''foo-v12'' = Inr (''foo'', 12) \<and>
   parse_env_id ''foo-v1-v007'' = Inr (''foo-v1'', 7) \<and>
   (\<exists>ds. ''foo-v12'' = ''foo'' @ ''-v'' @ ds \<and> ds \<noteq> [] \<and> list_all is_digit ds \<and>
      (12::int) = int_of_digits ds)"
proof -
  have h: "s \<noteq> [] \<and> list_all name_char s \<and> \<not> has_version_suffix s"
    if "s \<in> {''foo-v'', ''foo-vx'', ''foo-v-1'', ''caf'' @ [CHR 0xE9] @ ''-v''}" for s
    using that by (auto; code_simp)
  have g: "''foo'' \<noteq> [] \<and> list_all name_char ''foo'' \<and> ''12'' \<noteq> [] \<and> list_all is_digit ''12''"
    by code_simp
  have g': "''foo-v1'' \<noteq> [] \<and> list_all name_char ''foo-v1'' \<and> ''007'' \<noteq> [] \<and>
      list_all is_digit ''007''"
    by code_simp
  have i: "int_of_digits ''12'' = 12" "int_of_digits ''007'' = 7" by code_simp+
  from h C3_suffix [of "''foo-v''"] have "parse_env_id ''foo-v'' = Inr (''foo-v'', 0)" by blast
  moreover from h C3_suffix [of "''foo-vx''"] have "parse_env_id ''foo-vx'' = Inr (''foo-vx'', 0)" by blast
  moreover from h C3_suffix [of "''foo-v-1''"] have "parse_env_id ''foo-v-1'' = Inr (''foo-v-1'', 0)" by blast
  moreover from h C3_suffix [of "''caf'' @ [CHR 0xE9] @ ''-v''"]
  have "parse_env_id (''caf'' @ [CHR 0xE9] @ ''-v'') = Inr (''caf'' @ [CHR 0xE9] @ ''-v'', 0)"
    by blast
  moreover from g C3_suffix [where m = "''foo''" and digits = "''12''"]
  have "parse_env_id (''foo'' @ ''-v'' @ ''12'') = Inr (''foo'', int_of_digits ''12'')" by blast
  then have p: "parse_env_id ''foo-v12'' = Inr (''foo'', 12)" by (simp add: i)
  moreover from g' C3_suffix [where m = "''foo-v1''" and digits = "''007''"]
  have "parse_env_id (''foo-v1'' @ ''-v'' @ ''007'') = Inr (''foo-v1'', int_of_digits ''007'')"
    by blast
  then have "parse_env_id ''foo-v1-v007'' = Inr (''foo-v1'', 7)" by (simp add: i)
  moreover from p C3_suffix [of "''foo-v12''"]
  have "\<exists>ds. ''foo-v12'' = ''foo'' @ ''-v'' @ ds \<and> ds \<noteq> [] \<and> list_all is_digit ds \<and>
      (12::int) = int_of_digits ds" by blast
  ultimately show ?thesis by blast
qed

subsection \<open>C4: the first version of a name\<close>

text \<open>
  Claim C4: in a registry that \<^verbatim>\<open>register\<close> has built (\<open>registry_ok\<close>), a call
  \<^verbatim>\<open>register(id, entry_point)\<close> or \<^verbatim>\<open>register(id, entry_point, kwargs=d)\<close> whose identifier
  parses to the name \<open>n\<close> and the version \<open>v\<close> raises the error of a version gap exactly
  when \<open>v\<close> is not 0 and no record of the registry has the name \<open>n\<close>. (With any
  keywords: if that error is raised, the call had no other keyword, the message names
  \<open>v\<close>, and the registry is as it was.) In particular, once \<^verbatim>\<open>register\<close> of \<^verbatim>\<open>m-v0\<close> has
  returned, \<^verbatim>\<open>register\<close> of \<^verbatim>\<open>m-v5\<close> returns too, provided \<^verbatim>\<open>m-v5\<close> is not registered
  yet: the keys are then the old ones, \<^verbatim>\<open>m-v0\<close> and \<^verbatim>\<open>m-v5\<close>, with no version between.
\<close>

theorem C4_version_gap:
  "(registry_ok (REGISTRY st) \<and> parse_env_id ident = Inr (n, v) \<longrightarrow>
      ((\<exists>msg. fst (register st ident ep kwargs_arg []) = Inl (VersionGapError msg)) \<longleftrightarrow>
       v \<noteq> 0 \<and> (\<forall>s \<in> set (map snd (REGISTRY st)). name s \<noteq> n)) \<and>
      (\<forall>msg. fst (register st ident ep kwargs_arg extra) = Inl (VersionGapError msg) \<longrightarrow>
         extra = [] \<and> msg = version_gap_message v \<and>
         REGISTRY (snd (register st ident ep kwargs_arg extra)) = REGISTRY st)) \<and>
   (m \<noteq> [] \<and> list_all name_char m \<and>
    register st (m @ ''-v0'') ep0 kwargs0 extra0 = (Inr (), st1) \<and>
    m @ ''-v5'' \<notin> set (map fst (REGISTRY st)) \<longrightarrow>
      (\<exists>st2. register st1 (m @ ''-v5'') ep5 kwargs5 [] = (Inr (), st2) \<and>
         map fst (REGISTRY st2) = map fst (REGISTRY st) @ [m @ ''-v0'', m @ ''-v5'']))"
proof (intro conjI impI)
  assume a: "registry_ok (REGISTRY st) \<and> parse_env_id ident = Inr (n, v)"
  then have ok: "registry_ok (REGISTRY st)" and parse: "parse_env_id ident = Inr (n, v)"
    by simp_all
  show "(\<exists>msg. fst (register st ident ep kwargs_arg []) = Inl (VersionGapError msg)) \<longleftrightarrow>
       v \<noteq> 0 \<and> (\<forall>s \<in> set (map snd (REGISTRY st)). name s \<noteq> n)"
  proof
    assume "\<exists>msg. fst (register st ident ep kwargs_arg []) = Inl (VersionGapError msg)"
    then obtain msg where "fst (register st ident ep kwargs_arg []) = Inl (VersionGapError msg)"
      by blast
    from register_gap_only [OF parse this]
    show "v \<noteq> 0 \<and> (\<forall>s \<in> set (map snd (REGISTRY st)). name s \<noteq> n)" by simp
  next
    assume g: "v \<noteq> 0 \<and> (\<forall>s \<in> set (map snd (REGISTRY st)). name s \<noteq> n)"
    have fresh: "get_env_id n (Some v) \<notin> set (map fst (REGISTRY st))"
    proof
      assume "get_env_id n (Some v) \<in> set (map fst (REGISTRY st))"
      from registry_ok_same_name [OF ok parse this] g show False by blast
    qed
    from g have "v \<noteq> 0" "\<forall>s \<in> set (map snd (REGISTRY st)). name s \<noteq> n" by simp_all
    from register_gap [OF parse fresh this, where ep = ep and kwargs_arg = kwargs_arg]
    show "\<exists>msg. fst (register st ident ep kwargs_arg []) = Inl (VersionGapError msg)"
      by blast
  qed
  show "\<forall>msg. fst (register st ident ep kwargs_arg extra) = Inl (VersionGapError msg) \<longrightarrow>
         extra = [] \<and> msg = version_gap_message v \<and>
         REGISTRY (snd (register st ident ep kwargs_arg extra)) = REGISTRY st"
  proof (intro allI impI)
    fix msg
    assume r: "fst (register st ident ep kwargs_arg extra) = Inl (VersionGapError msg)"
    from register_gap_only [OF parse r] have "extra = []" "msg = version_gap_message v"
      by simp_all
    moreover from register_outcome [of st ident ep kwargs_arg extra] r
    have "REGISTRY (snd (register st ident ep kwargs_arg extra)) = REGISTRY st"
      by (cases "register st ident ep kwargs_arg extra") auto
    ultimately show "extra = [] \<and> msg = version_gap_message v \<and>
         REGISTRY (snd (register st ident ep kwargs_arg extra)) = REGISTRY st" by simp
  qed
next
  assume a: "m \<noteq> [] \<and> list_all name_char m \<and>
    register st (m @ ''-v0'') ep0 kwargs0 extra0 = (Inr (), st1) \<and>
    m @ ''-v5'' \<notin> set (map fst (REGISTRY st))"
  then have m: "m \<noteq> []" "list_all name_char m"
    and r0: "register st (m @ ''-v0'') ep0 kwargs0 extra0 = (Inr (), st1)"
    and fresh5: "m @ ''-v5'' \<notin> set (map fst (REGISTRY st))" by simp_all
  from m have p0: "parse_env_id (m @ ''-v0'') = Inr (m, 0)"
    using parse_get_env_id [of m 0] by (simp add: get_env_id_0)
  from m have p5: "parse_env_id (m @ ''-v5'') = Inr (m, 5)"
    using parse_get_env_id [of m 5] by (simp add: get_env_id_5)
  from register_outcome [OF r0] p0 obtain ref where
    reg1: "REGISTRY st1 = REGISTRY st @
       [(m @ ''-v0'', \<lparr>id_str = m @ ''-v0'', entry_point = ep0, kwargs = ref,
                       name = m, version = 0\<rparr>)]"
    by (auto simp: get_env_id_0)
  have f: "get_env_id m (Some 5) \<notin> set (map fst (REGISTRY st1))"
    using fresh5 by (simp add: reg1 get_env_id_5)
  have s: "5 = (0::int) \<or> (\<exists>s \<in> set (map snd (REGISTRY st1)). name s = m)"
    by (simp add: reg1)
  from register_success [OF p5 f s, where ep = ep5 and kwargs_arg = kwargs5]
  obtain st2 where r5: "register st1 (m @ ''-v5'') ep5 kwargs5 [] = (Inr (), st2)"
    and "map fst (REGISTRY st2) = map fst (REGISTRY st1) @ [get_env_id m (Some 5)]"
    by auto
  then have "map fst (REGISTRY st2) = map fst (REGISTRY st) @ [m @ ''-v0'', m @ ''-v5'']"
    by (simp add: reg1 get_env_id_5)
  with r5 show "\<exists>st2. register st1 (m @ ''-v5'') ep5 kwargs5 [] = (Inr (), st2) \<and>
         map fst (REGISTRY st2) = map fst (REGISTRY st) @ [m @ ''-v0'', m @ ''-v5'']"
    by blast
qed

theorem C4_version_gap_witness:
  "registry_ok (REGISTRY (empty_state :: nat state)) \<and>
   parse_env_id ''cartpole-v1'' = Inr (''cartpole'', 1) \<and>
   (\<exists>msg. fst (register (empty_state :: nat state) ''cartpole-v1'' ''pkg.envs:CartPole'' None [])
      = Inl (VersionGapError msg)) \<and>
   (\<exists>st1 st2.
      register (empty_state :: nat state) ''cartpole-v0'' ''pkg.envs:CartPole'' None [] =
        (Inr (), st1) \<and>
      register st1 ''cartpole-v5'' ''pkg.envs:CartPole'' None [] = (Inr (), st2) \<and>
      map fst (REGISTRY st2) = [''cartpole-v0'', ''cartpole-v5''])"
proof -
  let ?st = "empty_state :: nat state"
  let ?st1 = "snd (register ?st ''cartpole-v0'' ''pkg.envs:CartPole'' None [])"
  note T = C4_version_gap [where st = ?st and ident = "''cartpole-v1''" and n = "''cartpole''"
      and v = 1 and ep = "''pkg.envs:CartPole''" and kwargs_arg = None and extra = "[]"
      and m = "''cartpole''" and ?ep0.0 = "''pkg.envs:CartPole''" and ?kwargs0.0 = None
      and ?extra0.0 = "[]" and ?st1.0 = ?st1 and ?ep5.0 = "''pkg.envs:CartPole''"
      and ?kwargs5.0 = None]
  have ok: "registry_ok (REGISTRY ?st)" by (rule registry_ok_empty)
  have parse: "parse_env_id ''cartpole-v1'' = Inr (''cartpole'', 1)" by code_simp
  have none: "(1::int) \<noteq> 0 \<and> (\<forall>s \<in> set (map snd (REGISTRY ?st)). name s \<noteq> ''cartpole'')"
    by (simp add: empty_state_def)
  from T ok parse none
  have gap: "\<exists>msg. fst (register ?st ''cartpole-v1'' ''pkg.envs:CartPole'' None [])
      = Inl (VersionGapError msg)"
    by blast
  have "fst (register ?st ''cartpole-v0'' ''pkg.envs:CartPole'' None []) = Inr ()"
    by code_simp
  then have r0: "register ?st (''cartpole'' @ ''-v0'') ''pkg.envs:CartPole'' None [] = (Inr (), ?st1)"
    by (simp add: prod_eq_iff)
  have m: "''cartpole'' \<noteq> [] \<and> list_all name_char ''cartpole''" by code_simp
  have fresh: "''cartpole'' @ ''-v5'' \<notin> set (map fst (REGISTRY ?st))"
    by (simp add: empty_state_def)
  from T m r0 fresh obtain st2 where
    "register ?st1 (''cartpole'' @ ''-v5'') ''pkg.envs:CartPole'' None [] = (Inr (), st2)"
    "map fst (REGISTRY st2) =
       map fst (REGISTRY ?st) @ [''cartpole'' @ ''-v0'', ''cartpole'' @ ''-v5'']"
    by blast
  with r0 have "\<exists>st1 st2.
      register ?st ''cartpole-v0'' ''pkg.envs:CartPole'' None [] = (Inr (), st1) \<and>
      register st1 ''cartpole-v5'' ''pkg.envs:CartPole'' None [] = (Inr (), st2) \<and>
      map fst (REGISTRY st2) = [''cartpole-v0'', ''cartpole-v5'']"
    by (auto simp: empty_state_def)
  with ok parse gap show ?thesis by blast
qed

subsection \<open>C5: registering an identifier twice\<close>

text \<open>
  Claim C5: in a registry that \<^verbatim>\<open>register\<close> has built (\<open>registry_ok\<close>), a call
  \<^verbatim>\<open>register(id, entry_point)\<close> or \<^verbatim>\<open>register(id, entry_point, kwargs=d)\<close> whose canonical identifier is already a key
  raises the error of a duplicate registration; the registry after the call is the
  registry before it, and it has exactly one entry for that identifier. And whenever
  a call of \<^verbatim>\<open>register\<close> raises, with any arguments, the registry is as it was.
\<close>

theorem C5_duplicate:
  "(registry_ok (REGISTRY st) \<and> parse_env_id ident = Inr (n, v) \<and>
    get_env_id n (Some v) \<in> set (map fst (REGISTRY st)) \<longrightarrow>
      fst (register st ident ep kwargs_arg []) =
        Inl (DuplicateRegistration (duplicate_message (get_env_id n (Some v)))) \<and>
      REGISTRY (snd (register st ident ep kwargs_arg [])) = REGISTRY st \<and>
      length (filter (\<lambda>(k, s). k = get_env_id n (Some v))
                (REGISTRY (snd (register st ident ep kwargs_arg [])))) = 1) \<and>
   (\<forall>e. fst (register st ident ep kwargs_arg extra) = Inl e \<longrightarrow>
      REGISTRY (snd (register st ident ep kwargs_arg extra)) = REGISTRY st)"
proof (intro conjI impI allI)
  assume a: "registry_ok (REGISTRY st) \<and> parse_env_id ident = Inr (n, v) \<and>
    get_env_id n (Some v) \<in> set (map fst (REGISTRY st))"
  then have d: "distinct (map fst (REGISTRY st))"
    and parse: "parse_env_id ident = Inr (n, v)"
    and key: "get_env_id n (Some v) \<in> set (map fst (REGISTRY st))"
    by (simp_all add: registry_ok_def)
  note dup = register_duplicate [OF parse key, where ep = ep and kwargs_arg = kwargs_arg]
  from dup show "fst (register st ident ep kwargs_arg []) =
        Inl (DuplicateRegistration (duplicate_message (get_env_id n (Some v))))" by simp
  from dup show "REGISTRY (snd (register st ident ep kwargs_arg [])) = REGISTRY st" by simp
  from dup one_entry [OF d key]
  show "length (filter (\<lambda>(k, s). k = get_env_id n (Some v))
                (REGISTRY (snd (register st ident ep kwargs_arg [])))) = 1" by simp
next
  fix e
  assume "fst (register st ident ep kwargs_arg extra) = Inl e"
  then show "REGISTRY (snd (register st ident ep kwargs_arg extra)) = REGISTRY st"
    by (rule register_failed)
qed

theorem C5_duplicate_witness:
  "registry_ok (REGISTRY cartpole_state) \<and>
   parse_env_id ''cartpole-v0'' = Inr (''cartpole'', 0) \<and>
   get_env_id ''cartpole'' (Some 0) \<in> set (map fst (REGISTRY cartpole_state)) \<and>
   fst (register cartpole_state ''cartpole-v0'' ''pkg.envs:CartPole'' None []) =
     Inl (DuplicateRegistration ''Trying to override the registered environment cartpole-v0.'') \<and>
   REGISTRY (snd (register cartpole_state ''cartpole-v0'' ''pkg.envs:CartPole'' None [])) =
     REGISTRY cartpole_state \<and>
   length (filter (\<lambda>(k, s). k = ''cartpole-v0'')
     (REGISTRY (snd (register cartpole_state ''cartpole-v0'' ''pkg.envs:CartPole'' None [])))) = 1"
proof -
  note T = C5_duplicate [where st = cartpole_state and ident = "''cartpole-v0''"
      and n = "''cartpole''" and v = 0 and ep = "''pkg.envs:CartPole''"
      and kwargs_arg = None and extra = "[]"]
  have ok: "registry_ok (REGISTRY cartpole_state)" by code_simp
  have parse: "parse_env_id ''cartpole-v0'' = Inr (''cartpole'', 0)" by code_simp
  have key: "get_env_id ''cartpole'' (Some 0) \<in> set (map fst (REGISTRY cartpole_state))"
    by code_simp
  have k: "get_env_id ''cartpole'' (Some 0) = ''cartpole-v0''" by code_simp
  have msg: "duplicate_message ''cartpole-v0'' =
      ''Trying to override the registered environment cartpole-v0.''"
    by code_simp
  from T ok parse key
  have "fst (register cartpole_state ''cartpole-v0'' ''pkg.envs:CartPole'' None []) =
        Inl (DuplicateRegistration (duplicate_message (get_env_id ''cartpole'' (Some 0)))) \<and>
      REGISTRY (snd (register cartpole_state ''cartpole-v0'' ''pkg.envs:CartPole'' None [])) =
        REGISTRY cartpole_state \<and>
      length (filter (\<lambda>(k, s). k = get_env_id ''cartpole'' (Some 0))
        (REGISTRY (snd (register cartpole_state ''cartpole-v0'' ''pkg.envs:CartPole'' None [])))) = 1"
    by blast
  with ok parse key show ?thesis unfolding k msg by blast
qed

subsection \<open>C6: the version defaults to 0\<close>

text \<open>
  Claim C6: let \<open>ident\<close> be an identifier that parses with no version suffix (the name
  is the whole string), such as \<^verbatim>\<open>foo\<close>. Then \<^verbatim>\<open>register(ident, ep)\<close> returns if
  \<open>ident-v0\<close> is not a key yet; and when it returns, the record is stored last, under
  the key \<open>ident-v0\<close>, with that identifier, the name \<open>ident\<close> and version 0; a
  subsequent \<^verbatim>\<open>register\<close> of \<open>ident-v0\<close> raises the error of a duplicate registration;
  and \<^verbatim>\<open>make(ident)\<close> does what \<^verbatim>\<open>make\<close> of \<open>ident-v0\<close> does: it resolves the entry point
  of that record and calls the constructor with the arguments of that record (read
  from the store, where \<open>refs_ok\<close> says that they are).
\<close>

theorem C6_default_version:
  "parse_env_id ident = Inr (ident, 0) \<longrightarrow>
     (ident @ ''-v0'' \<notin> set (map fst (REGISTRY st)) \<longrightarrow>
        fst (register st ident ep kwargs_arg []) = Inr ()) \<and>
     (\<forall>st1. register st ident ep kwargs_arg extra = (Inr (), st1) \<longrightarrow>
        (\<exists>spec. REGISTRY st1 = REGISTRY st @ [(ident @ ''-v0'', spec)] \<and>
           map_of (REGISTRY st1) (ident @ ''-v0'') = Some spec \<and>
           id_str spec = ident @ ''-v0'' \<and> name spec = ident \<and> version spec = 0 \<and>
           entry_point spec = ep \<and>
           fst (register st1 (ident @ ''-v0'') ep' kwargs_arg' []) =
             Inl (DuplicateRegistration (duplicate_message (ident @ ''-v0''))) \<and>
           make imp st1 ident args kw = make imp st1 (ident @ ''-v0'') args kw \<and>
           (refs_ok st1 \<longrightarrow>
              fst (make imp st1 ident args kw) =
                (case load imp ep of
                   Inl e \<Rightarrow> Inl e
                 | Inr env_fn \<Rightarrow> env_fn args (update_items (store st1 ! kwargs spec) kw)))))"
proof (intro impI conjI allI)
  assume parse: "parse_env_id ident = Inr (ident, 0)"
  assume "ident @ ''-v0'' \<notin> set (map fst (REGISTRY st))"
  then have fresh: "get_env_id ident (Some 0) \<notin> set (map fst (REGISTRY st))"
    by (simp add: get_env_id_0)
  have "(0::int) = 0 \<or> (\<exists>s \<in> set (map snd (REGISTRY st)). name s = ident)" by simp
  from register_success [OF parse fresh this, where ep = ep and kwargs_arg = kwargs_arg]
  show "fst (register st ident ep kwargs_arg []) = Inr ()" by auto
next
  fix st1
  assume parse: "parse_env_id ident = Inr (ident, 0)"
  assume r: "register st ident ep kwargs_arg extra = (Inr (), st1)"
  let ?k = "ident @ ''-v0''"
  from register_outcome [OF r] parse obtain ref where
    fresh: "?k \<notin> set (map fst (REGISTRY st))" and
    reg: "REGISTRY st1 = REGISTRY st @
        [(?k, \<lparr>id_str = ?k, entry_point = ep, kwargs = ref, name = ident, version = 0\<rparr>)]"
    by (auto simp: get_env_id_0)
  let ?spec = "\<lparr>id_str = ?k, entry_point = ep, kwargs = ref, name = ident, version = 0\<rparr>"
  from fresh have "map_of (REGISTRY st) ?k = None" by (simp add: map_of_eq_None_iff)
  then have look: "map_of (REGISTRY st1) ?k = Some ?spec"
    by (simp add: reg map_add_def)
  have pk: "parse_env_id ?k = Inr (ident, 0)"
    using canonical_parses [OF parse] by (simp add: get_env_id_0)
  have key: "get_env_id ident (Some 0) \<in> set (map fst (REGISTRY st1))"
    by (simp add: reg get_env_id_0)
  from register_duplicate [OF pk key, where ep = ep' and kwargs_arg = kwargs_arg']
  have dup: "fst (register st1 ?k ep' kwargs_arg' []) =
      Inl (DuplicateRegistration (duplicate_message ?k))"
    by (simp add: get_env_id_0)
  have same: "make imp st1 ident args kw = make imp st1 ?k args kw"
    using make_canonical [OF parse, of imp st1 args kw] by (simp add: get_env_id_0)
  from look have "map_of (REGISTRY st1) (get_env_id ident (Some 0)) = Some ?spec"
    by (simp add: get_env_id_0)
  from make_result [OF parse this, of imp args kw]
  have res: "fst (make imp st1 ident args kw) =
       (case load imp ep of
          Inl e \<Rightarrow> Inl e
        | Inr env_fn \<Rightarrow> env_fn args (update_items (store st1 ! kwargs ?spec) kw))"
    by simp
  from reg look dup same res
  show "\<exists>spec. REGISTRY st1 = REGISTRY st @ [(?k, spec)] \<and>
           map_of (REGISTRY st1) ?k = Some spec \<and>
           id_str spec = ?k \<and> name spec = ident \<and> version spec = 0 \<and>
           entry_point spec = ep \<and>
           fst (register st1 ?k ep' kwargs_arg' []) =
             Inl (DuplicateRegistration (duplicate_message ?k)) \<and>
           make imp st1 ident args kw = make imp st1 ?k args kw \<and>
           (refs_ok st1 \<longrightarrow>
              fst (make imp st1 ident args kw) =
                (case load imp ep of
                   Inl e \<Rightarrow> Inl e
                 | Inr env_fn \<Rightarrow> env_fn args (update_items (store st1 ! kwargs spec) kw)))"
    by (intro exI [of _ ?spec]) simp
qed

theorem C6_default_version_witness:
  "parse_env_id ''foo'' = Inr (''foo'', 0) \<and>
   fst (register (empty_state :: nat state) ''foo'' ''pkg.envs:CartPole'' None []) = Inr () \<and>
   (\<exists>spec.
      REGISTRY (snd (register (empty_state :: nat state) ''foo'' ''pkg.envs:CartPole'' None [])) =
        [(''foo-v0'', spec)] \<and>
      id_str spec = ''foo-v0'' \<and> name spec = ''foo'' \<and> version spec = 0 \<and>
      fst (register (snd (register (empty_state :: nat state) ''foo'' ''pkg.envs:CartPole'' None []))
             ''foo-v0'' ''pkg.envs:CartPole'' None []) =
        Inl (DuplicateRegistration (duplicate_message ''foo-v0'')) \<and>
      fst (make pkg_importer
             (snd (register (empty_state :: nat state) ''foo'' ''pkg.envs:CartPole'' None []))
             ''foo'' [] []) =
        fst (make pkg_importer
             (snd (register (empty_state :: nat state) ''foo'' ''pkg.envs:CartPole'' None []))
             ''foo-v0'' [] [])) \<and>
   fst (make pkg_importer
          (snd (register (empty_state :: nat state) ''foo'' ''pkg.envs:CartPole'' None []))
          ''foo'' [] []) = Inr ([], [])"
proof -
  let ?st = "empty_state :: nat state"
  let ?st1 = "snd (register ?st ''foo'' ''pkg.envs:CartPole'' None [])"
  note T = C6_default_version [where ident = "''foo''" and st = ?st
      and ep = "''pkg.envs:CartPole''" and kwargs_arg = None and extra = "[]"
      and ep' = "''pkg.envs:CartPole''" and kwargs_arg' = None and imp = pkg_importer
      and args = "[]" and kw = "[]"]
  have parse: "parse_env_id ''foo'' = Inr (''foo'', 0)" by code_simp
  have fresh: "''foo'' @ ''-v0'' \<notin> set (map fst (REGISTRY ?st))"
    by (simp add: empty_state_def)
  from T parse fresh
  have ok: "fst (register ?st ''foo'' ''pkg.envs:CartPole'' None []) = Inr ()" by blast
  then have r: "register ?st ''foo'' ''pkg.envs:CartPole'' None [] = (Inr (), ?st1)"
    by (simp add: prod_eq_iff)
  from T parse r obtain spec where
    "REGISTRY ?st1 = REGISTRY ?st @ [(''foo'' @ ''-v0'', spec)]"
    "id_str spec = ''foo'' @ ''-v0''" "name spec = ''foo''" "version spec = 0"
    "fst (register ?st1 (''foo'' @ ''-v0'') ''pkg.envs:CartPole'' None []) =
       Inl (DuplicateRegistration (duplicate_message (''foo'' @ ''-v0'')))"
    "make pkg_importer ?st1 ''foo'' [] [] = make pkg_importer ?st1 (''foo'' @ ''-v0'') [] []"
    by blast
  then have "\<exists>spec.
      REGISTRY ?st1 = [(''foo-v0'', spec)] \<and>
      id_str spec = ''foo-v0'' \<and> name spec = ''foo'' \<and> version spec = 0 \<and>
      fst (register ?st1 ''foo-v0'' ''pkg.envs:CartPole'' None []) =
        Inl (DuplicateRegistration (duplicate_message ''foo-v0'')) \<and>
      fst (make pkg_importer ?st1 ''foo'' [] []) =
        fst (make pkg_importer ?st1 ''foo-v0'' [] [])"
    by (auto simp: empty_state_def)
  moreover have "fst (make pkg_importer ?st1 ''foo'' [] []) = Inr ([], [])" by code_simp
  ultimately show ?thesis using parse ok by blast
qed

subsection \<open>C7: the keyword arguments of the constructor\<close>

text \<open>
  Claim C7, in a state where the dictionaries that the records refer to exist
  (\<open>refs_ok\<close>, which \<^verbatim>\<open>register\<close> and \<^verbatim>\<open>make\<close> preserve), and for keyword arguments with
  distinct names, as those of a call are:
  when \<^verbatim>\<open>make(id, *args, **kwargs)\<close> returns an environment, the identifier
  parses, its canonical form is the key of a record, the entry point of the record
  resolves to a constructor, and the environment is what that constructor returns for
  the positional arguments and a dictionary that maps every key of the caller's
  keyword arguments to the caller's value, and every other key to what the stored
  dictionary of the record maps it to. The registry is unchanged, every dictionary of
  the store is as it was, the stored dictionary of the record among them, so a later
  \<^verbatim>\<open>make\<close> with no keyword arguments calls the constructor with the stored dictionary
  as it was at first.
\<close>

theorem C7_merge:
  "make imp st ident args kw = (Inr env, st') \<and> distinct (map fst kw) \<and> refs_ok st \<longrightarrow>
     (\<exists>n v spec env_fn.
        parse_env_id ident = Inr (n, v) \<and>
        map_of (REGISTRY st) (get_env_id n (Some v)) = Some spec \<and>
        load imp (entry_point spec) = Inr env_fn \<and>
        env_fn args (update_items (store st ! kwargs spec) kw) = Inr env \<and>
        (\<forall>k. map_of (update_items (store st ! kwargs spec) kw) k =
           (case map_of kw k of
              Some x \<Rightarrow> Some x
            | None \<Rightarrow> map_of (store st ! kwargs spec) k)) \<and>
        REGISTRY st' = REGISTRY st \<and>
        (\<forall>a < length (store st). store st' ! a = store st ! a) \<and>
        store st' ! kwargs spec = store st ! kwargs spec \<and>
        fst (make imp st' ident args' []) = env_fn args' (store st ! kwargs spec))"
proof
  assume a: "make imp st ident args kw = (Inr env, st') \<and> distinct (map fst kw) \<and> refs_ok st"
  then have d: "distinct (map fst kw)" and ok: "refs_ok st" by simp_all
  from a make_success [of imp st ident args kw env st'] obtain n v spec env_fn where
    parse: "parse_env_id ident = Inr (n, v)" and
    look: "map_of (REGISTRY st) (get_env_id n (Some v)) = Some spec" and
    ld: "load imp (entry_point spec) = Inr env_fn" and
    call: "env_fn args (update_items (store st ! kwargs spec) kw) = Inr env" and
    st': "st' = st\<lparr>store := store st @ [update_items (store st ! kwargs spec) kw]\<rparr>"
    by blast
  from refs_ok_lookup [OF ok look] have r: "kwargs spec < length (store st)" .
  have reg: "REGISTRY st' = REGISTRY st" by (simp add: st')
  have old: "\<forall>a < length (store st). store st' ! a = store st ! a"
    by (simp add: st' nth_append)
  with r have same: "store st' ! kwargs spec = store st ! kwargs spec" by simp
  from look reg have "map_of (REGISTRY st') (get_env_id n (Some v)) = Some spec" by simp
  from make_result [OF parse this, of imp args' "[]"] ld same
  have later: "fst (make imp st' ident args' []) = env_fn args' (store st ! kwargs spec)"
    by (simp add: update_items_Nil)
  from parse look ld call merged_lookup [OF d] reg old same later
  show "\<exists>n v spec env_fn.
        parse_env_id ident = Inr (n, v) \<and>
        map_of (REGISTRY st) (get_env_id n (Some v)) = Some spec \<and>
        load imp (entry_point spec) = Inr env_fn \<and>
        env_fn args (update_items (store st ! kwargs spec) kw) = Inr env \<and>
        (\<forall>k. map_of (update_items (store st ! kwargs spec) kw) k =
           (case map_of kw k of
              Some x \<Rightarrow> Some x
            | None \<Rightarrow> map_of (store st ! kwargs spec) k)) \<and>
        REGISTRY st' = REGISTRY st \<and>
        (\<forall>a < length (store st). store st' ! a = store st ! a) \<and>
        store st' ! kwargs spec = store st ! kwargs spec \<and>
        fst (make imp st' ident args' []) = env_fn args' (store st ! kwargs spec)"
    by blast
qed

theorem C7_merge_witness:
  "make pkg_importer cartpole_state ''cartpole-v0'' [] [(''size'', 8)] =
     (Inr ([], [(''size'', 8)]),
      snd (make pkg_importer cartpole_state ''cartpole-v0'' [] [(''size'', 8)])) \<and>
   distinct (map fst [(''size'', 8 :: nat)]) \<and> refs_ok cartpole_state \<and>
   (\<exists>spec env_fn.
      map_of (REGISTRY cartpole_state) ''cartpole-v0'' = Some spec \<and>
      load pkg_importer (entry_point spec) = Inr env_fn \<and>
      env_fn [] (update_items (store cartpole_state ! kwargs spec) [(''size'', 8)]) =
        Inr ([], [(''size'', 8)]) \<and>
      store (snd (make pkg_importer cartpole_state ''cartpole-v0'' [] [(''size'', 8)]))
        ! kwargs spec = store cartpole_state ! kwargs spec \<and>
      fst (make pkg_importer
             (snd (make pkg_importer cartpole_state ''cartpole-v0'' [] [(''size'', 8)]))
             ''cartpole-v0'' [7] []) = env_fn [7] (store cartpole_state ! kwargs spec)) \<and>
   REGISTRY (snd (make pkg_importer cartpole_state ''cartpole-v0'' [] [(''size'', 8)])) =
     REGISTRY cartpole_state \<and>
   fst (make pkg_importer
          (snd (make pkg_importer cartpole_state ''cartpole-v0'' [] [(''size'', 8)]))
          ''cartpole-v0'' [7] []) = Inr ([7], [(''size'', 4)])"
proof -
  let ?st' = "snd (make pkg_importer cartpole_state ''cartpole-v0'' [] [(''size'', 8)])"
  note T = C7_merge [where imp = pkg_importer and st = cartpole_state
      and ident = "''cartpole-v0''" and args = "[]" and kw = "[(''size'', 8)]"
      and env = "([], [(''size'', 8)])" and st' = ?st' and args' = "[7]"]
  have "fst (make pkg_importer cartpole_state ''cartpole-v0'' [] [(''size'', 8)]) =
      Inr ([], [(''size'', 8)])"
    by code_simp
  then have m: "make pkg_importer cartpole_state ''cartpole-v0'' [] [(''size'', 8)] =
      (Inr ([], [(''size'', 8)]), ?st')"
    by (simp add: prod_eq_iff)
  have d: "distinct (map fst [(''size'', 8 :: nat)])" by simp
  have r: "refs_ok cartpole_state" by code_simp
  have p: "parse_env_id ''cartpole-v0'' = Inr (''cartpole'', 0)" by code_simp
  have k: "get_env_id ''cartpole'' (Some 0) = ''cartpole-v0''" by code_simp
  from T m d r obtain n v spec env_fn where
    c: "parse_env_id ''cartpole-v0'' = Inr (n, v)"
      "map_of (REGISTRY cartpole_state) (get_env_id n (Some v)) = Some spec"
      "load pkg_importer (entry_point spec) = Inr env_fn"
      "env_fn [] (update_items (store cartpole_state ! kwargs spec) [(''size'', 8)]) =
         Inr ([], [(''size'', 8)])"
      "REGISTRY ?st' = REGISTRY cartpole_state"
      "store ?st' ! kwargs spec = store cartpole_state ! kwargs spec"
      "fst (make pkg_importer ?st' ''cartpole-v0'' [7] []) =
         env_fn [7] (store cartpole_state ! kwargs spec)"
    by blast
  from c(1) p have "n = ''cartpole''" "v = 0" by simp_all
  with c(2) k have "map_of (REGISTRY cartpole_state) ''cartpole-v0'' = Some spec" by simp
  with c have e: "\<exists>spec env_fn.
      map_of (REGISTRY cartpole_state) ''cartpole-v0'' = Some spec \<and>
      load pkg_importer (entry_point spec) = Inr env_fn \<and>
      env_fn [] (update_items (store cartpole_state ! kwargs spec) [(''size'', 8)]) =
        Inr ([], [(''size'', 8)]) \<and>
      store ?st' ! kwargs spec = store cartpole_state ! kwargs spec \<and>
      fst (make pkg_importer ?st' ''cartpole-v0'' [7] []) =
        env_fn [7] (store cartpole_state ! kwargs spec)"
    by blast
  have later: "fst (make pkg_importer ?st' ''cartpole-v0'' [7] []) = Inr ([7], [(''size'', 4)])"
    by code_simp
  from m d r e c(5) later show ?thesis by blast
qed

subsection \<open>C8: an identifier that is not registered\<close>

text \<open>
  Claim C8: \<^verbatim>\<open>make\<close> with an identifier that parses and whose canonical form is not a
  key of the registry raises the error of an unregistered environment and leaves the
  state as it was; the message of the error has, for every key \<open>k\<close> of the registry, the
  line \<^verbatim>\<open>- k\<close>.
\<close>

theorem C8_unregistered:
  "parse_env_id ident = Inr (n, v) \<and>
   get_env_id n (Some v) \<notin> set (map fst (REGISTRY st)) \<longrightarrow>
     make imp st ident args kw =
       (Inl (UnregisteredEnvironment
               (unregistered_message (get_env_id n (Some v)) (map fst (REGISTRY st)))), st) \<and>
     (\<forall>k \<in> set (map fst (REGISTRY st)).
        \<exists>pre post. unregistered_message (get_env_id n (Some v)) (map fst (REGISTRY st)) =
          pre @ ''- '' @ k @ post)"
proof (intro impI conjI ballI)
  assume a: "parse_env_id ident = Inr (n, v) \<and>
   get_env_id n (Some v) \<notin> set (map fst (REGISTRY st))"
  then show "make imp st ident args kw =
       (Inl (UnregisteredEnvironment
               (unregistered_message (get_env_id n (Some v)) (map fst (REGISTRY st)))), st)"
    by (simp add: make_unregistered)
next
  fix k
  assume "k \<in> set (map fst (REGISTRY st))"
  then show "\<exists>pre post. unregistered_message (get_env_id n (Some v)) (map fst (REGISTRY st)) =
          pre @ ''- '' @ k @ post"
    by (rule unregistered_message_lists)
qed

theorem C8_unregistered_witness:
  "parse_env_id ''unknown-v0'' = Inr (''unknown'', 0) \<and>
   get_env_id ''unknown'' (Some 0) \<notin> set (map fst (REGISTRY cartpole_state)) \<and>
   make pkg_importer cartpole_state ''unknown-v0'' [] [] =
     (Inl (UnregisteredEnvironment
             (unregistered_message ''unknown-v0'' [''cartpole-v0''])), cartpole_state) \<and>
   (\<exists>pre post. unregistered_message ''unknown-v0'' [''cartpole-v0''] =
      pre @ ''- '' @ ''cartpole-v0'' @ post) \<and>
   unregistered_message ''unknown-v0'' [''cartpole-v0''] =
     ''Unregistered environment unknown-v0. Please select from the registered environments: ''
     @ [CHR 0x0A] @ ''- cartpole-v0.''"
proof -
  note T = C8_unregistered [where ident = "''unknown-v0''" and n = "''unknown''" and v = 0
      and st = cartpole_state and imp = pkg_importer and args = "[]" and kw = "[]"]
  have p: "parse_env_id ''unknown-v0'' = Inr (''unknown'', 0)" by code_simp
  have f: "get_env_id ''unknown'' (Some 0) \<notin> set (map fst (REGISTRY cartpole_state))"
    by code_simp
  have k: "get_env_id ''unknown'' (Some 0) = ''unknown-v0''" by code_simp
  have keys: "map fst (REGISTRY cartpole_state) = [''cartpole-v0'']" by code_simp
  have msg: "unregistered_message ''unknown-v0'' [''cartpole-v0''] =
     ''Unregistered environment unknown-v0. Please select from the registered environments: ''
     @ [CHR 0x0A] @ ''- cartpole-v0.''"
    by code_simp
  from T p f have
    "make pkg_importer cartpole_state ''unknown-v0'' [] [] =
       (Inl (UnregisteredEnvironment
               (unregistered_message (get_env_id ''unknown'' (Some 0))
                  (map fst (REGISTRY cartpole_state)))), cartpole_state)"
    "\<forall>k \<in> set (map fst (REGISTRY cartpole_state)).
        \<exists>pre post. unregistered_message (get_env_id ''unknown'' (Some 0))
          (map fst (REGISTRY cartpole_state)) = pre @ ''- '' @ k @ post"
    by blast+
  then have
    "make pkg_importer cartpole_state ''unknown-v0'' [] [] =
       (Inl (UnregisteredEnvironment
               (unregistered_message ''unknown-v0'' [''cartpole-v0''])), cartpole_state)"
    "\<exists>pre post. unregistered_message ''unknown-v0'' [''cartpole-v0''] =
        pre @ ''- '' @ ''cartpole-v0'' @ post"
    unfolding k keys by simp_all
  with p f msg show ?thesis by blast
qed

subsection \<open>C9: listing the registry\<close>

text \<open>
  Claim C9: \<^verbatim>\<open>registered_environments\<close> returns the keys of the registry, in the order
  of the dictionary, and leaves the state as it was. After any sequence of calls of
  \<^verbatim>\<open>register\<close> on the empty registry, these are the canonical identifiers of the calls
  that returned, in the order of the calls, they are the identifiers of the records of
  the registry, and no identifier is listed twice. (From any state: the keys listed
  before, then those of the calls that returned.)
\<close>

theorem C9_registered_environments:
  "registered_environments st = (map fst (REGISTRY st), st) \<and>
   (register_all empty_state calls = (ids, st) \<longrightarrow>
      fst (registered_environments st) = ids \<and>
      map (\<lambda>(k, s). id_str s) (REGISTRY st) = ids \<and> distinct ids) \<and>
   (register_all st0 calls = (ids, st) \<longrightarrow>
      fst (registered_environments st) = fst (registered_environments st0) @ ids)"
proof (intro conjI impI)
  show "registered_environments st = (map fst (REGISTRY st), st)"
    by (simp add: registered_environments_def)
next
  assume a: "register_all empty_state calls = (ids, st)"
  from register_all_keys [OF a] have k: "map fst (REGISTRY st) = ids"
    by (simp add: empty_state_def)
  from registry_ok_register_all [OF registry_ok_empty a] have ok: "registry_ok (REGISTRY st)" .
  from k show "fst (registered_environments st) = ids"
    by (simp add: registered_environments_def)
  from registry_ok_ids [OF ok] k show "map (\<lambda>(k, s). id_str s) (REGISTRY st) = ids" by simp
  from ok k show "distinct ids" by (simp add: registry_ok_def)
next
  assume "register_all st0 calls = (ids, st)"
  from register_all_keys [OF this]
  show "fst (registered_environments st) = fst (registered_environments st0) @ ids"
    by (simp add: registered_environments_def)
qed

theorem C9_registered_environments_witness:
  "register_all (empty_state :: nat state)
     [(''b'', ''m:B'', None, []), (''a-v1'', ''m:A'', None, []),
      (''a'', ''m:A'', None, [''size'']), (''a'', ''m:A'', None, []),
      (''b-v0'', ''m:B'', None, []), (''a-v3'', ''m:A'', None, [])] =
     ([''b-v0'', ''a-v0'', ''a-v3''],
      snd (register_all (empty_state :: nat state)
        [(''b'', ''m:B'', None, []), (''a-v1'', ''m:A'', None, []),
         (''a'', ''m:A'', None, [''size'']), (''a'', ''m:A'', None, []),
         (''b-v0'', ''m:B'', None, []), (''a-v3'', ''m:A'', None, [])])) \<and>
   registered_environments
     (snd (register_all (empty_state :: nat state)
        [(''b'', ''m:B'', None, []), (''a-v1'', ''m:A'', None, []),
         (''a'', ''m:A'', None, [''size'']), (''a'', ''m:A'', None, []),
         (''b-v0'', ''m:B'', None, []), (''a-v3'', ''m:A'', None, [])])) =
     ([''b-v0'', ''a-v0'', ''a-v3''],
      snd (register_all (empty_state :: nat state)
        [(''b'', ''m:B'', None, []), (''a-v1'', ''m:A'', None, []),
         (''a'', ''m:A'', None, [''size'']), (''a'', ''m:A'', None, []),
         (''b-v0'', ''m:B'', None, []), (''a-v3'', ''m:A'', None, [])])) \<and>
   map (\<lambda>(k, s). id_str s)
     (REGISTRY (snd (register_all (empty_state :: nat state)
        [(''b'', ''m:B'', None, []), (''a-v1'', ''m:A'', None, []),
         (''a'', ''m:A'', None, [''size'']), (''a'', ''m:A'', None, []),
         (''b-v0'', ''m:B'', None, []), (''a-v3'', ''m:A'', None, [])]))) =
     [''b-v0'', ''a-v0'', ''a-v3'']"
proof -
  let ?calls = "[(''b'', ''m:B'', None, []), (''a-v1'', ''m:A'', None, []),
      (''a'', ''m:A'', None, [''size'']), (''a'', ''m:A'', None, []),
      (''b-v0'', ''m:B'', None, []), (''a-v3'', ''m:A'', None, [])]"
  let ?st = "snd (register_all (empty_state :: nat state) ?calls)"
  let ?ids = "[''b-v0'', ''a-v0'', ''a-v3'']"
  note T = C9_registered_environments [where st = ?st and calls = ?calls and ids = ?ids
      and ?st0.0 = "empty_state :: nat state"]
  have "fst (register_all (empty_state :: nat state) ?calls) = ?ids" by code_simp
  then have r: "register_all (empty_state :: nat state) ?calls = (?ids, ?st)"
    by (simp add: prod_eq_iff)
  from T r have "registered_environments ?st = (map fst (REGISTRY ?st), ?st)"
    "fst (registered_environments ?st) = ?ids"
    "map (\<lambda>(k, s). id_str s) (REGISTRY ?st) = ?ids"
    by blast+
  then have "registered_environments ?st = (?ids, ?st)"
    "map (\<lambda>(k, s). id_str s) (REGISTRY ?st) = ?ids"
    by (simp_all add: prod_eq_iff)
  with r show ?thesis by blast
qed

subsection \<open>C10: keywords other than \<^verbatim>\<open>kwargs\<close>\<close>

text \<open>
  Claim C10 fails for a malformed identifier: with it, \<^verbatim>\<open>register\<close> raises the error of the parser before it
  builds the record: \<^verbatim>\<open>register("", entry_point, size=4)\<close> raises that error, not a
  \<^verbatim>\<open>TypeError\<close>.
\<close>

theorem C10_counterexample:
  "register \<lparr>REGISTRY = [], store = []\<rparr> '''' ''pkg.envs:Foo'' None [''size''] =
     (Inl (MalformedIdentifier (malformed_message '''')),
      \<lparr>REGISTRY = [], store = [] :: nat store\<rparr>) \<and>
   fst (register \<lparr>REGISTRY = [], store = [] :: nat store\<rparr> '''' ''pkg.envs:Foo'' None [''size''])
     \<noteq> Inl TypeError"
  by (simp add: register_def parse_env_id_def)

text \<open>
  Claim C10, amended: a call of \<^verbatim>\<open>register\<close> with a keyword other than \<^verbatim>\<open>kwargs\<close> raises
  a \<^verbatim>\<open>TypeError\<close> when its identifier parses (and the error of the parser when it does
  not), and in both cases leaves the state as it was: nothing is inserted. A call
  that returns had no such keyword, and the dictionary of construction arguments of
  the record it inserted is the one given as \<^verbatim>\<open>kwargs=\<close>, or a new empty dictionary.
\<close>

theorem C10_extra_keyword:
  "(extra \<noteq> [] \<longrightarrow>
      (\<forall>n v. parse_env_id ident = Inr (n, v) \<longrightarrow>
         register st ident ep kwargs_arg extra = (Inl TypeError, st)) \<and>
      (\<forall>e. parse_env_id ident = Inl e \<longrightarrow>
         register st ident ep kwargs_arg extra = (Inl e, st)) \<and>
      snd (register st ident ep kwargs_arg extra) = st) \<and>
   (\<forall>st'. register st ident ep kwargs_arg extra = (Inr (), st') \<longrightarrow>
      extra = [] \<and>
      (\<exists>k spec. REGISTRY st' = REGISTRY st @ [(k, spec)] \<and>
         (case kwargs_arg of
            Some a \<Rightarrow> kwargs spec = a \<and> store st' = store st
          | None \<Rightarrow> kwargs spec = length (store st) \<and> store st' = store st @ [[]])))"
proof (intro conjI impI allI)
  fix n v
  assume "extra \<noteq> []" and "parse_env_id ident = Inr (n, v)"
  then show "register st ident ep kwargs_arg extra = (Inl TypeError, st)"
    by (simp add: register_rejected)
next
  fix e
  assume "parse_env_id ident = Inl e"
  then show "register st ident ep kwargs_arg extra = (Inl e, st)"
    by (rule register_malformed)
next
  assume x: "extra \<noteq> []"
  show "snd (register st ident ep kwargs_arg extra) = st"
  proof (cases "parse_env_id ident")
    case (Inl e)
    then show ?thesis by (simp add: register_malformed)
  next
    case (Inr p)
    obtain n v where "p = (n, v)" by (cases p)
    with Inr x show ?thesis by (simp add: register_rejected)
  qed
next
  fix st'
  assume r: "register st ident ep kwargs_arg extra = (Inr (), st')"
  from register_outcome [OF r] show "extra = []" by auto
  from register_outcome [OF r]
  show "\<exists>k spec. REGISTRY st' = REGISTRY st @ [(k, spec)] \<and>
         (case kwargs_arg of
            Some a \<Rightarrow> kwargs spec = a \<and> store st' = store st
          | None \<Rightarrow> kwargs spec = length (store st) \<and> store st' = store st @ [[]])"
    by (auto split: option.splits)
qed

theorem C10_extra_keyword_witness:
  "[''size''] \<noteq> [] \<and> parse_env_id ''acrobot'' = Inr (''acrobot'', 0) \<and>
   register cartpole_state ''acrobot'' ''pkg.envs:Acrobot'' None [''size''] =
     (Inl TypeError, cartpole_state) \<and>
   register cartpole_state ''acrobot'' ''pkg.envs:Acrobot'' (Some 0) [] =
     (Inr (), snd (register cartpole_state ''acrobot'' ''pkg.envs:Acrobot'' (Some 0) [])) \<and>
   (\<exists>k spec.
      REGISTRY (snd (register cartpole_state ''acrobot'' ''pkg.envs:Acrobot'' (Some 0) [])) =
        REGISTRY cartpole_state @ [(k, spec)] \<and>
      kwargs spec = 0 \<and>
      store (snd (register cartpole_state ''acrobot'' ''pkg.envs:Acrobot'' (Some 0) [])) =
        store cartpole_state)"
proof -
  let ?st1 = "snd (register cartpole_state ''acrobot'' ''pkg.envs:Acrobot'' (Some 0) [])"
  note T1 = C10_extra_keyword [where extra = "[''size'']" and ident = "''acrobot''"
      and st = cartpole_state and ep = "''pkg.envs:Acrobot''" and kwargs_arg = None]
  note T2 = C10_extra_keyword [where extra = "[]" and ident = "''acrobot''"
      and st = cartpole_state and ep = "''pkg.envs:Acrobot''" and kwargs_arg = "Some 0"]
  have x: "[''size''] \<noteq> []" by simp
  have p: "parse_env_id ''acrobot'' = Inr (''acrobot'', 0)" by code_simp
  from T1 x p
  have t: "register cartpole_state ''acrobot'' ''pkg.envs:Acrobot'' None [''size''] =
     (Inl TypeError, cartpole_state)"
    by blast
  have "fst (register cartpole_state ''acrobot'' ''pkg.envs:Acrobot'' (Some 0) []) = Inr ()"
    by code_simp
  then have r: "register cartpole_state ''acrobot'' ''pkg.envs:Acrobot'' (Some 0) [] =
     (Inr (), ?st1)"
    by (simp add: prod_eq_iff)
  from T2 r have "\<exists>k spec. REGISTRY ?st1 = REGISTRY cartpole_state @ [(k, spec)] \<and>
      (case Some 0 of
         Some a \<Rightarrow> kwargs spec = a \<and> store ?st1 = store cartpole_state
       | None \<Rightarrow> kwargs spec = length (store cartpole_state) \<and>
           store ?st1 = store cartpole_state @ [[]])"
    by blast
  then have "\<exists>k spec. REGISTRY ?st1 = REGISTRY cartpole_state @ [(k, spec)] \<and>
      kwargs spec = 0 \<and> store ?st1 = store cartpole_state"
    by simp
  with x p t r show ?thesis by blast
qed

end
